theory Spec2Isabelle
  imports Main "HOL-Library.Char_ord" "HOL-Library.List_Lexorder" "HOL-Library.Word"
begin

section \<open>Data model\<close>

text \<open>
  The repository is one Python module, \<^verbatim>\<open>eip712/__init__.py\<close>. Its inputs are plain
  Python values. Strings are modelled as lists of ASCII characters, so that Python's
  code-point comparison of \<^verbatim>\<open>str\<close> is the lexicographic order on \<open>char list\<close>, the
  word characters of a regular expression are the letters, the digits and the underscore,
  and the UTF-8 encoding of a string is its list of character codes. Byte strings are
  lists of 8-bit words. An exception is a result \<open>Inl\<close>; a value returned is \<open>Inr\<close>.
  Python's bound on the depth of recursion is not modelled.
\<close>

type_synonym byte = "8 word"
type_synonym bytes = "byte list"

text \<open>The Python values a Record can hold.\<close>

datatype pyval =
    PyNone
  | PyInt int
  | PyBool bool
  | PyStr string
  | PyBytes bytes
  | PyList "pyval list"
  | PyDict "(string \<times> pyval) list"

text \<open>
  The exceptions the module raises or lets through. \<open>Exception\<close> carries the message of
  the module's own \<^verbatim>\<open>raise Exception(...)\<close>; \<open>LibraryError\<close> is whatever one of the
  imported libraries raises.
\<close>

datatype error =
    KeyError string
  | Exception string
  | TypeError
  | AttributeError
  | IndexError
  | OverflowError
  | ValueError
  | LibraryError string

text \<open>A field descriptor \<^verbatim>\<open>{'name': ..., 'type': ...}\<close> of a type declaration.\<close>

record field =
  fname :: string
  ftype :: string

text \<open>
  The TypeSet, a Python \<^verbatim>\<open>dict\<close> from type name to field list: an association list read
  with \<open>map_of\<close>. \<^verbatim>\<open>typ in types\<close> is \<open>map_of types typ \<noteq> None\<close>, \<^verbatim>\<open>types[typ]\<close> raises
  \<open>KeyError\<close> on \<open>None\<close>, and \<^verbatim>\<open>types.get(typ)\<close> is falsy for a missing key and for an
  empty field list.
\<close>

type_synonym typeset = "(string \<times> field list) list"

definition truthy :: "field list option \<Rightarrow> bool" where
  "truthy r = (case r of None \<Rightarrow> False | Some children \<Rightarrow> children \<noteq> [])"

section \<open>find\_type\_dependencies\<close>

text \<open>
  \<^verbatim>\<open>re.split(r'\W', primary_type)[0]\<close>: the text before the first character that is not
  a letter, a digit or an underscore.
\<close>

definition is_word_char :: "char \<Rightarrow> bool" where
  "is_word_char c =
     ((CHR ''a'' \<le> c \<and> c \<le> CHR ''z'') \<or> (CHR ''A'' \<le> c \<and> c \<le> CHR ''Z'') \<or>
      (CHR ''0'' \<le> c \<and> c \<le> CHR ''9'') \<or> c = CHR ''_'')"

definition re_split_first :: "string \<Rightarrow> string" where
  "re_split_first s = takeWhile is_word_char s"

text \<open>
  The inner loop \<^verbatim>\<open>for dep in deps: if dep not in results: results.append(dep)\<close>.
\<close>

definition merge_deps :: "string list \<Rightarrow> string list \<Rightarrow> string list" where
  "merge_deps deps results =
     fold (\<lambda>dep rs. if dep \<in> set rs then rs else rs @ [dep]) deps results"

text \<open>
  \<^verbatim>\<open>find_type_dependencies(primary_type, types, results)\<close>. The list \<^verbatim>\<open>results\<close> is
  mutated in place and returned, so the model passes it in and out; the default
  \<^verbatim>\<open>results=None\<close> is the call with \<open>[]\<close>. The recursive call returns the very list it was
  given, so \<^verbatim>\<open>deps\<close> and \<^verbatim>\<open>results\<close> are the same object when the inner loop runs:
  \<open>merge_deps deps deps\<close>. \<open>find_deps_fields\<close> is the loop over the fields.
\<close>

function find_type_dependencies :: "string \<Rightarrow> typeset \<Rightarrow> string list \<Rightarrow> string list"
  and find_deps_fields :: "field list \<Rightarrow> typeset \<Rightarrow> string list \<Rightarrow> string list"
where
  "find_type_dependencies primary_type types results =
     (let pt = re_split_first primary_type in
      if pt \<in> set results \<or> \<not> truthy (map_of types pt) then results
      else (case map_of types pt of
              None \<Rightarrow> results
            | Some children \<Rightarrow> find_deps_fields children types (results @ [pt])))"
| "find_deps_fields [] types results = results"
| "find_deps_fields (f # rest) types results =
     (let deps = find_type_dependencies (ftype f) types results in
      find_deps_fields rest types (merge_deps deps deps))"
  by pat_completeness auto

lemma merge_deps_subset:
  "set deps \<subseteq> set results \<Longrightarrow> merge_deps deps results = results"
proof -
  have "set ds \<subseteq> set rs \<Longrightarrow>
        fold (\<lambda>dep rs. if dep \<in> set rs then rs else rs @ [dep]) ds rs = rs"
    for ds rs :: "string list"
    by (induction ds) auto
  then show "set deps \<subseteq> set results \<Longrightarrow> merge_deps deps results = results"
    unfolding merge_deps_def by blast
qed

lemma merge_deps_same [simp]: "merge_deps deps deps = deps"
  by (simp add: merge_deps_subset)

text \<open>What is left to visit: the names with a non-empty field list not yet in the result.\<close>

definition composite_names :: "typeset \<Rightarrow> string set" where
  "composite_names types = {k \<in> fst ` set types. truthy (map_of types k)}"

definition unvisited :: "typeset \<Rightarrow> string list \<Rightarrow> nat" where
  "unvisited types results = card (composite_names types - set results)"

lemma finite_composite_names: "finite (composite_names types)"
  by (simp add: composite_names_def)

lemma truthy_composite_names: "truthy (map_of types k) \<Longrightarrow> k \<in> composite_names types"
  by (auto simp: composite_names_def truthy_def dest: map_of_SomeD
      split: option.splits intro: rev_image_eqI)

lemma unvisited_mono: "set rs \<subseteq> set rs' \<Longrightarrow> unvisited types rs' \<le> unvisited types rs"
  unfolding unvisited_def
  by (intro card_mono) (auto simp: finite_composite_names)

lemma unvisited_visit:
  assumes "truthy (map_of types k)" and "k \<notin> set rs"
  shows "unvisited types (rs @ [k]) < unvisited types rs"
  unfolding unvisited_def
  by (rule psubset_card_mono)
    (use assms truthy_composite_names in \<open>auto simp: finite_composite_names\<close>)

lemma find_deps_dom_grows:
  "find_type_dependencies_find_deps_fields_dom (Inl (pt, types, rs)) \<Longrightarrow>
     set rs \<subseteq> set (find_type_dependencies pt types rs)"
  "find_type_dependencies_find_deps_fields_dom (Inr (fs, types, rs)) \<Longrightarrow>
     set rs \<subseteq> set (find_deps_fields fs types rs)"
proof (induction pt types rs and fs types rs
    rule: find_type_dependencies_find_deps_fields.pinduct)
  case (1 primary_type types results)
  then show ?case
    by (auto simp: find_type_dependencies.psimps Let_def split: option.splits)
next
  case (2 types results)
  then show ?case by (simp add: find_deps_fields.psimps)
next
  case (3 f rest types results)
  then show ?case
    by (auto simp: find_deps_fields.psimps Let_def)
qed

termination find_type_dependencies
proof (relation "measures
    [\<lambda>x. case x of Inl (pt, types, rs) \<Rightarrow> unvisited types rs
                 | Inr (fs, types, rs) \<Rightarrow> unvisited types rs,
     \<lambda>x. case x of Inl (pt, types, rs) \<Rightarrow> 0
                 | Inr (fs, types, rs) \<Rightarrow> Suc (length fs)]", goal_cases)
  case 1
  then show ?case by simp
next
  case (2 primary_type types results x x2)
  then show ?case by (simp add: unvisited_visit)
next
  case (3 f rest types results)
  then show ?case by simp
next
  case (4 f rest types results x)
  then have "set results \<subseteq> set x" by (simp add: find_deps_dom_grows)
  then have "unvisited types x \<le> unvisited types results" by (rule unvisited_mono)
  then show ?case by auto
qed

declare find_type_dependencies.simps [simp del]

section \<open>encode\_type\<close>

text \<open>\<^verbatim>\<open>sep.join(xs)\<close> on strings.\<close>

fun py_join :: "string \<Rightarrow> string list \<Rightarrow> string" where
  "py_join sep [] = []"
| "py_join sep [x] = x"
| "py_join sep (x # y # zs) = x @ sep @ py_join sep (y # zs)"

text \<open>
  The loop \<^verbatim>\<open>for typ in deps\<close> of \<^verbatim>\<open>encode_type\<close>, with \<^verbatim>\<open>result\<close> as accumulator.
  \<^verbatim>\<open>types[typ]\<close> raises \<open>KeyError\<close> for a missing key. The message of the module's own
  exception is the f-string \<^verbatim>\<open>f"No type definition specified: {type}"\<close>, which formats
  the builtin \<^verbatim>\<open>type\<close> and not the loop variable \<^verbatim>\<open>typ\<close>.
\<close>

fun encode_type_loop :: "string list \<Rightarrow> typeset \<Rightarrow> string \<Rightarrow> error + string" where
  "encode_type_loop [] types result = Inr result"
| "encode_type_loop (typ # deps) types result =
     (case map_of types typ of
        None \<Rightarrow> Inl (KeyError typ)
      | Some children \<Rightarrow>
          if children = [] then Inl (Exception ''No type definition specified: <class 'type'>'')
          else
            let defs = map (\<lambda>t. ftype t @ '' '' @ fname t) children
            in encode_type_loop deps types (result @ typ @ ''('' @ py_join '','' defs @ '')''))"

definition encode_type :: "string \<Rightarrow> typeset \<Rightarrow> error + string" where
  "encode_type primary_type types =
     (let deps = find_type_dependencies primary_type types [];
          deps = sort (filter (\<lambda>d. d \<noteq> primary_type) deps);
          deps = primary_type # deps
      in encode_type_loop deps types [])"

section \<open>The external primitives\<close>

text \<open>
  The module imports its hash function, its ABI encoder and its signer; they are
  parameters of the model. \<open>keccak256\<close> is \<^verbatim>\<open>eth_utils.keccak\<close> on a byte string,
  \<open>to_bytes\<close> the coercion \<^verbatim>\<open>keccak\<close> applies to a caller-supplied value that need not
  be one, \<open>abi_encode\<close> is \<^verbatim>\<open>eth_abi.encode(types, values)\<close> and \<open>int_of_str\<close> is
  Python's \<^verbatim>\<open>int()\<close> on a string.
\<close>

record prims =
  keccak256 :: "bytes \<Rightarrow> bytes"
  to_bytes :: "pyval \<Rightarrow> error + bytes"
  abi_encode :: "string list \<Rightarrow> pyval list \<Rightarrow> error + bytes"
  int_of_str :: "string \<Rightarrow> error + int"

text \<open>
  \<^verbatim>\<open>PrivateKey.from_hex\<close> and \<^verbatim>\<open>sign_recoverable(payload, hasher=...)\<close> of the signing
  library, over its own key type.
\<close>

record 'k signer =
  from_hex :: "string \<Rightarrow> error + 'k"
  sign_recoverable :: "'k \<Rightarrow> bytes \<Rightarrow> (bytes \<Rightarrow> bytes) \<Rightarrow> error + bytes"

definition encode_utf8 :: "string \<Rightarrow> bytes" where
  "encode_utf8 s = map (\<lambda>c. of_nat (of_char c)) s"

definition hash_type :: "prims \<Rightarrow> string \<Rightarrow> typeset \<Rightarrow> error + bytes" where
  "hash_type P primary_type types =
     (case encode_type primary_type types of
        Inl e \<Rightarrow> Inl e
      | Inr s \<Rightarrow> Inr (keccak256 P (encode_utf8 s)))"

section \<open>encode\_data\<close>

text \<open>\<^verbatim>\<open>data[key]\<close>: only a dict can be read with a string key.\<close>

fun py_getitem :: "pyval \<Rightarrow> string \<Rightarrow> error + pyval" where
  "py_getitem (PyDict kvs) key =
     (case map_of kvs key of None \<Rightarrow> Inl (KeyError key) | Some v \<Rightarrow> Inr v)"
| "py_getitem _ key = Inl TypeError"

text \<open>\<^verbatim>\<open>for v in value\<close>: the elements Python's iteration yields, or \<open>TypeError\<close>.\<close>

fun py_iter :: "pyval \<Rightarrow> error + pyval list" where
  "py_iter (PyList vs) = Inr vs"
| "py_iter (PyStr s) = Inr (map (\<lambda>c. PyStr [c]) s)"
| "py_iter (PyBytes b) = Inr (map (\<lambda>x. PyInt (uint x)) b)"
| "py_iter (PyDict kvs) = Inr (map (\<lambda>kv. PyStr (fst kv)) kvs)"
| "py_iter _ = Inl TypeError"

text \<open>A list of results in order, up to the first exception.\<close>

fun sequence_err :: "(error + 'a) list \<Rightarrow> error + 'a list" where
  "sequence_err [] = Inr []"
| "sequence_err (x # xs) =
     (case x of
        Inl e \<Rightarrow> Inl e
      | Inr v \<Rightarrow> (case sequence_err xs of Inl e \<Rightarrow> Inl e | Inr vs \<Rightarrow> Inr (v # vs)))"

text \<open>
  \<^verbatim>\<open>d[k] = v\<close> on an insertion-ordered dict, and \<^verbatim>\<open>dict(pairs)\<close>: a key seen again keeps
  its place and takes the later value.
\<close>

fun dict_setitem :: "string \<Rightarrow> 'v \<Rightarrow> (string \<times> 'v) list \<Rightarrow> (string \<times> 'v) list" where
  "dict_setitem k v [] = [(k, v)]"
| "dict_setitem k v (p # ps) = (if fst p = k then (k, v) # ps else p # dict_setitem k v ps)"

definition py_dict :: "(string \<times> 'v) list \<Rightarrow> (string \<times> 'v) list" where
  "py_dict pairs = foldl (\<lambda>d kv. dict_setitem (fst kv) (snd kv) d) [] pairs"

text \<open>\<^verbatim>\<open>re.search(r'^u?int(\d+)$', typ)\<close>; \<^verbatim>\<open>$\<close> also matches before a final newline.\<close>

definition is_digit :: "char \<Rightarrow> bool" where
  "is_digit c = (CHR ''0'' \<le> c \<and> c \<le> CHR ''9'')"

definition is_int_type :: "string \<Rightarrow> bool" where
  "is_int_type typ =
     (let t = (if typ \<noteq> [] \<and> last typ = CHR 0x0A then butlast typ else typ);
          r = (if take 1 t = ''u'' then drop 1 t else t)
      in take 3 r = ''int'' \<and> drop 3 r \<noteq> [] \<and> list_all is_digit (drop 3 r))"

text \<open>
  \<^verbatim>\<open>if re.search(...) and isinstance(val, str): val = int(val)\<close>, the step of the loop
  between \<^verbatim>\<open>_encode_field\<close> and \<^verbatim>\<open>encoded_values.append(val)\<close>.
\<close>

definition convert_int_value :: "prims \<Rightarrow> string \<Rightarrow> pyval \<Rightarrow> error + pyval" where
  "convert_int_value P typ val =
     (if is_int_type typ then
        (case val of
           PyStr s \<Rightarrow> (case int_of_str P s of Inl e \<Rightarrow> Inl e | Inr n \<Rightarrow> Inr (PyInt n))
         | _ \<Rightarrow> Inr val)
      else Inr val)"

text \<open>The literal \<^verbatim>\<open>_encode_field\<close> returns for a nested record whose value is \<^verbatim>\<open>None\<close>.\<close>

definition zero_bytes32_hex :: string where
  "zero_bytes32_hex = ''0x0000000000000000000000000000000000000000000000000000000000000000''"

text \<open>
  \<^verbatim>\<open>encode_data(primary_type, data, types)\<close> with its inner function \<^verbatim>\<open>_encode_field\<close>
  (\<open>encode_field\<close>, which closes over \<^verbatim>\<open>types\<close>) and its loop over the fields
  (\<open>encode_fields\<close>, with \<^verbatim>\<open>encoded_types\<close> and \<^verbatim>\<open>encoded_values\<close> as accumulators).
  The message of \<^verbatim>\<open>f"Missing value for field {name} of type {type}"\<close> formats the builtin
  \<^verbatim>\<open>type\<close>. \<^verbatim>\<open>typ[:-2]\<close> drops the last two characters.
\<close>

function encode_data :: "prims \<Rightarrow> string \<Rightarrow> pyval \<Rightarrow> typeset \<Rightarrow> error + bytes"
  and encode_fields ::
    "prims \<Rightarrow> typeset \<Rightarrow> field list \<Rightarrow> pyval \<Rightarrow> string list \<Rightarrow> pyval list \<Rightarrow>
     error + (string list \<times> pyval list)"
  and encode_field :: "prims \<Rightarrow> typeset \<Rightarrow> string \<Rightarrow> string \<Rightarrow> pyval \<Rightarrow> error + (string \<times> pyval)"
where
  "encode_data P primary_type data types =
     (case hash_type P primary_type types of
        Inl e \<Rightarrow> Inl e
      | Inr h \<Rightarrow>
          (case map_of types primary_type of
             None \<Rightarrow> Inl (KeyError primary_type)
           | Some children \<Rightarrow>
               (case encode_fields P types children data [''bytes32''] [PyBytes h] of
                  Inl e \<Rightarrow> Inl e
                | Inr tvs \<Rightarrow> abi_encode P (fst tvs) (snd tvs))))"
| "encode_fields P types [] data encoded_types encoded_values =
     Inr (encoded_types, encoded_values)"
| "encode_fields P types (f # rest) data encoded_types encoded_values =
     (case py_getitem data (fname f) of
        Inl e \<Rightarrow> Inl e
      | Inr value \<Rightarrow>
          (case encode_field P types (fname f) (ftype f) value of
             Inl e \<Rightarrow> Inl e
           | Inr tv \<Rightarrow>
               (case convert_int_value P (fst tv) (snd tv) of
                  Inl e \<Rightarrow> Inl e
                | Inr val \<Rightarrow>
                    encode_fields P types rest data
                      (encoded_types @ [fst tv]) (encoded_values @ [val]))))"
| "encode_field P types name typ value =
     (if map_of types typ \<noteq> None then
        (if value = PyNone then Inr (''bytes32'', PyStr zero_bytes32_hex)
         else (case encode_data P typ value types of
                 Inl e \<Rightarrow> Inl e
               | Inr b \<Rightarrow> Inr (''bytes32'', PyBytes (keccak256 P b))))
      else if value = PyNone then
        Inl (Exception (''Missing value for field '' @ name @ '' of type <class 'type'>''))
      else if typ = ''bytes'' then
        (case to_bytes P value of
           Inl e \<Rightarrow> Inl e
         | Inr b \<Rightarrow> Inr (''bytes32'', PyBytes (keccak256 P b)))
      else if typ = ''string'' then
        (case value of
           PyStr s \<Rightarrow> Inr (''bytes32'', PyBytes (keccak256 P (encode_utf8 s)))
         | _ \<Rightarrow> Inl AttributeError)
      else if typ \<noteq> [] \<and> last typ = CHR '']'' then
        (let parsed_type = butlast (butlast typ) in
         case py_iter value of
           Inl e \<Rightarrow> Inl e
         | Inr vs \<Rightarrow>
             (case sequence_err (map (\<lambda>v. encode_field P types name parsed_type v) vs) of
                Inl e \<Rightarrow> Inl e
              | Inr pairs \<Rightarrow>
                  (let type_value_pairs = py_dict pairs in
                   case abi_encode P (map fst type_value_pairs) (map snd type_value_pairs) of
                     Inl e \<Rightarrow> Inl e
                   | Inr enc \<Rightarrow> Inr (''bytes32'', PyBytes (keccak256 P enc)))))
      else Inr (typ, value))"
  by pat_completeness auto

lemma py_getitem_size: "py_getitem data key = Inr v \<Longrightarrow> size v < size data"
proof (cases data)
  case (PyDict kvs)
  assume "py_getitem data key = Inr v"
  with PyDict have "map_of kvs key = Some v" by (simp split: option.splits)
  then have "(key, v) \<in> set kvs" by (rule map_of_SomeD)
  then have "size v < Suc (size_list (size_prod (\<lambda>_. 0) size) kvs)"
    by (induction kvs) auto
  with PyDict show ?thesis by simp
qed simp_all

lemma py_iter_size: "py_iter value = Inr vs \<Longrightarrow> v \<in> set vs \<Longrightarrow> size v \<le> size value"
proof (cases "value")
  case (PyList xs)
  assume "py_iter value = Inr vs" "v \<in> set vs"
  with PyList have "v \<in> set xs" by simp
  then have "size v \<le> size_list size xs" by (induction xs) auto
  with PyList show ?thesis by simp
qed auto

termination encode_data
proof (relation "measures
    [\<lambda>x. case x of Inl (P, pt, data, types) \<Rightarrow> size data
                 | Inr (Inl (P, types, fs, data, tys, vals)) \<Rightarrow> size data
                 | Inr (Inr (P, types, name, typ, value)) \<Rightarrow> size value,
     \<lambda>x. case x of Inl (P, pt, data, types) \<Rightarrow> 1
                 | Inr (Inl (P, types, fs, data, tys, vals)) \<Rightarrow> 0
                 | Inr (Inr (P, types, name, typ, value)) \<Rightarrow> length typ + 2,
     \<lambda>x. case x of Inl (P, pt, data, types) \<Rightarrow> 0
                 | Inr (Inl (P, types, fs, data, tys, vals)) \<Rightarrow> length fs
                 | Inr (Inr (P, types, name, typ, value)) \<Rightarrow> 0]", goal_cases)
  case 1
  then show ?case by simp
next
  case 2
  then show ?case by simp
next
  case 3
  then show ?case by (simp add: py_getitem_size)
next
  case 4
  then show ?case by simp
next
  case 5
  then show ?case by simp
next
  case (6 P types name ty val x xa z)
  then have "size z \<le> size val" by (simp add: py_iter_size)
  moreover from 6 have "length (butlast (butlast ty)) < length ty" by (cases ty) auto
  ultimately show ?case using 6 by auto
qed

declare encode_data.simps [simp del] encode_field.simps [simp del]

text \<open>
  One iteration of the loop over the fields: the lookup \<^verbatim>\<open>data[field['name']]\<close>, the call
  of \<^verbatim>\<open>_encode_field\<close> and the integer conversion, giving the pair that is appended to
  \<^verbatim>\<open>encoded_types\<close> and \<^verbatim>\<open>encoded_values\<close>.
\<close>

definition encode_entry :: "prims \<Rightarrow> typeset \<Rightarrow> pyval \<Rightarrow> field \<Rightarrow> error + (string \<times> pyval)" where
  "encode_entry P types data f =
     (case py_getitem data (fname f) of
        Inl e \<Rightarrow> Inl e
      | Inr value \<Rightarrow>
          (case encode_field P types (fname f) (ftype f) value of
             Inl e \<Rightarrow> Inl e
           | Inr tv \<Rightarrow>
               (case convert_int_value P (fst tv) (snd tv) of
                  Inl e \<Rightarrow> Inl e
                | Inr val \<Rightarrow> Inr (fst tv, val))))"

definition hash_struct :: "prims \<Rightarrow> string \<Rightarrow> pyval \<Rightarrow> typeset \<Rightarrow> error + bytes" where
  "hash_struct P primary_type data types =
     (case encode_data P primary_type data types of
        Inl e \<Rightarrow> Inl e
      | Inr b \<Rightarrow> Inr (keccak256 P b))"

section \<open>Hexadecimal text and big-endian integers\<close>

text \<open>\<^verbatim>\<open>bytes.hex()\<close>: two lower-case digits per byte.\<close>

definition hex_digit :: "nat \<Rightarrow> char" where
  "hex_digit n = ''0123456789abcdef'' ! n"

definition hex_of_byte :: "byte \<Rightarrow> string" where
  "hex_of_byte b = [hex_digit (unat b div 16), hex_digit (unat b mod 16)]"

definition bytes_hex :: "bytes \<Rightarrow> string" where
  "bytes_hex bs = concat (map hex_of_byte bs)"

text \<open>
  \<^verbatim>\<open>bytes.fromhex(s)\<close>: pairs of hexadecimal digits of either case, ASCII whitespace
  between the pairs skipped, \<open>ValueError\<close> otherwise.
\<close>

definition hex_value :: "char \<Rightarrow> nat option" where
  "hex_value c =
     (if CHR ''0'' \<le> c \<and> c \<le> CHR ''9'' then Some (of_char c - of_char CHR ''0'')
      else if CHR ''a'' \<le> c \<and> c \<le> CHR ''f'' then Some (of_char c - of_char CHR ''a'' + 10)
      else if CHR ''A'' \<le> c \<and> c \<le> CHR ''F'' then Some (of_char c - of_char CHR ''A'' + 10)
      else None)"

definition is_space :: "char \<Rightarrow> bool" where
  "is_space c = (c \<in> set [CHR '' '', CHR 0x09, CHR 0x0A, CHR 0x0B, CHR 0x0C, CHR 0x0D])"

fun bytes_fromhex :: "string \<Rightarrow> error + bytes" where
  "bytes_fromhex [] = Inr []"
| "bytes_fromhex [c] = (if is_space c then Inr [] else Inl ValueError)"
| "bytes_fromhex (c # d # rest) =
     (if is_space c then bytes_fromhex (d # rest)
      else (case hex_value c of
              None \<Rightarrow> Inl ValueError
            | Some h \<Rightarrow>
                (case hex_value d of
                   None \<Rightarrow> Inl ValueError
                 | Some l \<Rightarrow>
                     (case bytes_fromhex rest of
                        Inl e \<Rightarrow> Inl e
                      | Inr bs \<Rightarrow> Inr (of_nat (16 * h + l) # bs)))))"

text \<open>\<^verbatim>\<open>eth_utils.big_endian_to_int\<close>, that is \<^verbatim>\<open>int.from_bytes(value, 'big')\<close>.\<close>

definition big_endian_to_int :: "bytes \<Rightarrow> int" where
  "big_endian_to_int bs = foldl (\<lambda>acc b. 256 * acc + uint b) 0 bs"

text \<open>
  \<^verbatim>\<open>n.to_bytes(length, 'big')\<close>: \<open>OverflowError\<close> for a negative \<open>n\<close> and for one that
  needs more than \<open>length\<close> bytes.
\<close>

fun big_endian_digits :: "nat \<Rightarrow> int \<Rightarrow> bytes" where
  "big_endian_digits 0 n = []"
| "big_endian_digits (Suc k) n = big_endian_digits k (n div 256) @ [word_of_int (n mod 256)]"

definition int_to_bytes :: "int \<Rightarrow> nat \<Rightarrow> error + bytes" where
  "int_to_bytes n len =
     (if n < 0 \<or> 256 ^ len \<le> n then Inl OverflowError else Inr (big_endian_digits len n))"

section \<open>eip712\_encode and eip712\_signature\<close>

text \<open>
  The dict \<^verbatim>\<open>typed_data\<close>. \<^verbatim>\<open>typed_data['message']\<close> is read only when the primary type
  is not the domain type, so that key may be absent.
\<close>

record typed_data =
  td_types :: typeset
  td_primaryType :: string
  td_domain :: pyval
  td_message :: "pyval option"

definition eip712_encode :: "prims \<Rightarrow> typed_data \<Rightarrow> error + bytes list" where
  "eip712_encode P td =
     (case bytes_fromhex ''1901'' of
        Inl e \<Rightarrow> Inl e
      | Inr magic \<Rightarrow>
          (let parts = [magic] in
           case hash_struct P ''EIP712Domain'' (td_domain td) (td_types td) of
             Inl e \<Rightarrow> Inl e
           | Inr h \<Rightarrow>
               (let parts = parts @ [h] in
                if td_primaryType td \<noteq> ''EIP712Domain'' then
                  (case td_message td of
                     None \<Rightarrow> Inl (KeyError ''message'')
                   | Some m \<Rightarrow>
                       (case hash_struct P (td_primaryType td) m (td_types td) of
                          Inl e \<Rightarrow> Inl e
                        | Inr hm \<Rightarrow> Inr (parts @ [hm])))
                else Inr parts)))"

text \<open>
  The two arguments of \<^verbatim>\<open>eip712_signature\<close>: a payload that is a byte string or a list
  (or tuple) of byte strings, and a key that is a string or a byte string.
  \<open>join_payload\<close> is \<^verbatim>\<open>b''.join(payload)\<close> for a list; \<open>normalise_key\<close> drops a leading
  \<^verbatim>\<open>0x\<close> from a string and turns a byte string into its hexadecimal text.
\<close>

datatype payload = Segments "bytes list" | Payload bytes

datatype private_key = KeyStr string | KeyBytes bytes

definition join_payload :: "payload \<Rightarrow> bytes" where
  "join_payload payload = (case payload of Segments parts \<Rightarrow> concat parts | Payload b \<Rightarrow> b)"

definition normalise_key :: "private_key \<Rightarrow> string" where
  "normalise_key private_key =
     (case private_key of
        KeyStr s \<Rightarrow> if take 2 s = ''0x'' then drop 2 s else s
      | KeyBytes b \<Rightarrow> bytes_hex b)"

definition eip712_signature ::
  "prims \<Rightarrow> 'k signer \<Rightarrow> payload \<Rightarrow> private_key \<Rightarrow> error + string" where
  "eip712_signature P S payload private_key =
     (let payload = join_payload payload;
          private_key = normalise_key private_key
      in case from_hex S private_key of
           Inl e \<Rightarrow> Inl e
         | Inr pk \<Rightarrow>
             (case sign_recoverable S pk payload (keccak256 P) of
                Inl e \<Rightarrow> Inl e
              | Inr signature \<Rightarrow>
                  if length signature \<le> 64 then Inl IndexError
                  else
                    (let v = uint (signature ! 64) + 27;
                         r = big_endian_to_int (take 32 signature);
                         s = big_endian_to_int (take 32 (drop 32 signature))
                     in case int_to_bytes r 32 of
                          Inl e \<Rightarrow> Inl e
                        | Inr rb \<Rightarrow>
                            (case int_to_bytes s 32 of
                               Inl e \<Rightarrow> Inl e
                             | Inr sb \<Rightarrow>
                                 (case int_to_bytes v 1 of
                                    Inl e \<Rightarrow> Inl e
                                  | Inr vb \<Rightarrow> Inr (''0x'' @ bytes_hex (rb @ sb @ vb)))))))"

section \<open>Example inputs\<close>

text \<open>The TypeSet of the repository's \<^verbatim>\<open>example.py\<close>.\<close>

definition example_types :: typeset where
  "example_types =
     [(''EIP712Domain'',
         [\<lparr>fname = ''name'', ftype = ''string''\<rparr>,
          \<lparr>fname = ''version'', ftype = ''string''\<rparr>,
          \<lparr>fname = ''chainId'', ftype = ''uint256''\<rparr>,
          \<lparr>fname = ''verifyingContract'', ftype = ''address''\<rparr>]),
      (''Mailbox'',
         [\<lparr>fname = ''owner'', ftype = ''address''\<rparr>,
          \<lparr>fname = ''messages'', ftype = ''Message[]''\<rparr>]),
      (''Message'',
         [\<lparr>fname = ''sender'', ftype = ''address''\<rparr>,
          \<lparr>fname = ''subject'', ftype = ''string''\<rparr>,
          \<lparr>fname = ''isSpam'', ftype = ''bool''\<rparr>,
          \<lparr>fname = ''body'', ftype = ''string''\<rparr>])]"

text \<open>
  A TypeSet whose primary type \<open>Mail\<close> names its dependencies in the order \<open>Person\<close>,
  \<open>Attachment\<close>, and refers to a type \<open>Label\<close> that has no entry.
\<close>

definition mail_types :: typeset where
  "mail_types =
     [(''Mail'',
         [\<lparr>fname = ''from'', ftype = ''Person''\<rparr>,
          \<lparr>fname = ''files'', ftype = ''Attachment[]''\<rparr>,
          \<lparr>fname = ''label'', ftype = ''Label''\<rparr>]),
      (''Person'', [\<lparr>fname = ''name'', ftype = ''string''\<rparr>]),
      (''Attachment'', [\<lparr>fname = ''owner'', ftype = ''Person''\<rparr>])]"

text \<open>The two messages of \<^verbatim>\<open>example.py\<close>.\<close>

definition message_1 :: pyval where
  "message_1 =
     PyDict [(''sender'', PyStr ''0x8e12f01dae5fe7f1122dc42f2cb084f2f9e8aa03''),
             (''subject'', PyStr ''Hello World''),
             (''body'', PyStr ''The sparrow flies at midnight.''),
             (''isSpam'', PyBool False)]"

definition message_2 :: pyval where
  "message_2 =
     PyDict [(''sender'', PyStr ''0x8e12f01dae5fe7f1122dc42f2cb084f2f9e8aa03''),
             (''subject'', PyStr ''You may have already Won! :dumb-emoji:''),
             (''body'', PyStr ''Click here for sweepstakes!''),
             (''isSpam'', PyBool True)]"

text \<open>The TypeSet of the standard's own example, and a \<open>Mail\<close> whose \<open>to\<close> is \<^verbatim>\<open>None\<close>.\<close>

definition person_types :: typeset where
  "person_types =
     [(''Mail'',
         [\<lparr>fname = ''from'', ftype = ''Person''\<rparr>,
          \<lparr>fname = ''to'', ftype = ''Person''\<rparr>,
          \<lparr>fname = ''contents'', ftype = ''string''\<rparr>]),
      (''Person'',
         [\<lparr>fname = ''name'', ftype = ''string''\<rparr>,
          \<lparr>fname = ''wallet'', ftype = ''address''\<rparr>])]"


text \<open>
  An instance of the external primitives, for evaluating the model on the examples: a
  32-byte padding in the place of the hash, an ABI encoder that writes the type names.
\<close>

definition toy_prims :: prims where
  "toy_prims =
     \<lparr>keccak256 = (\<lambda>b. take 32 (b @ replicate 32 0)),
      to_bytes = (\<lambda>v. case v of PyBytes b \<Rightarrow> Inr b | _ \<Rightarrow> Inl TypeError),
      abi_encode = (\<lambda>tys vals. Inr (encode_utf8 (concat tys))),
      int_of_str = (\<lambda>s. Inl ValueError)\<rparr>"

text \<open>
  An instance of the signer: keys are byte strings read from hexadecimal text, and the
  raw signature is the hash of the payload, then the key, then the recovery id 1.
\<close>

definition toy_signer :: "bytes signer" where
  "toy_signer =
     \<lparr>from_hex = bytes_fromhex,
      sign_recoverable = (\<lambda>pk payload hasher. Inr (hasher payload @ pk @ [1]))\<rparr>"

text \<open>The typed data and the private key of \<^verbatim>\<open>example.py\<close>, and the same data for the domain alone.\<close>

definition example_typed_data :: typed_data where
  "example_typed_data =
     \<lparr>td_types = example_types,
      td_primaryType = ''Mailbox'',
      td_domain =
        PyDict [(''name'', PyStr ''MyDApp''), (''version'', PyStr ''3.0''), (''chainId'', PyInt 41),
                (''verifyingContract'', PyStr ''0x8e12f01dae5fe7f1122dc42f2cb084f2f9e8aa03'')],
      td_message =
        Some (PyDict [(''owner'', PyStr ''0x8e12f01dae5fe7f1122dc42f2cb084f2f9e8aa03''),
                      (''messages'', PyList [message_1, message_2])])\<rparr>"

definition example_domain_data :: typed_data where
  "example_domain_data =
     example_typed_data\<lparr>td_primaryType := ''EIP712Domain'', td_message := None\<rparr>"

definition example_key :: private_key where
  "example_key = KeyStr ''0x8da4ef21b864d2cc526dbdb2a120bd2874c36c9d0a1fb7f8c63d7f7a8b41de8f''"

definition example_key_bytes :: bytes where
  "example_key_bytes =
     [0x8d, 0xa4, 0xef, 0x21, 0xb8, 0x64, 0xd2, 0xcc, 0x52, 0x6d, 0xbd, 0xb2, 0xa1, 0x20, 0xbd,
      0x28, 0x74, 0xc3, 0x6c, 0x9d, 0x0a, 0x1f, 0xb7, 0xf8, 0xc6, 0x3d, 0x7f, 0x7a, 0x8b, 0x41,
      0xde, 0x8f]"

definition example_digest :: bytes where
  "example_digest =
     [0x19, 0x01, 0xAB, 0xCD, 0, 0, 0, 0, 0, 0, 0, 0, 0, 0, 0, 0, 0, 0, 0, 0, 0, 0, 0, 0, 0, 0,
      0, 0, 0, 0, 0, 0]"

section \<open>The dependency graph\<close>

text \<open>
  \<open>depends_on types n q\<close>: \<open>n\<close> has a non-empty field list and \<open>q\<close> is \<open>n\<close> itself or is
  reached from it through field types, each stripped at its first non-word character and
  each with a non-empty field list of its own.
\<close>

inductive depends_on :: "typeset \<Rightarrow> string \<Rightarrow> string \<Rightarrow> bool" for types :: typeset where
  start: "truthy (map_of types n) \<Longrightarrow> depends_on types n n"
| step: "depends_on types n m \<Longrightarrow> map_of types m = Some children \<Longrightarrow> f \<in> set children \<Longrightarrow>
         truthy (map_of types (re_split_first (ftype f))) \<Longrightarrow>
         depends_on types n (re_split_first (ftype f))"

text \<open>
  The depth-first traversal as the specification describes it, with an explicit worklist
  and the list of the names visited so far: the name on top of the worklist is stripped;
  if it is already visited or has no non-empty field list it is dropped; otherwise it is
  appended to the visited names and the types of its fields are put on top of the
  worklist, in their declared order.
\<close>

function dfs_worklist :: "typeset \<Rightarrow> string list \<Rightarrow> string list \<Rightarrow> string list" where
  "dfs_worklist types [] visited = visited"
| "dfs_worklist types (name # worklist) visited =
     (let n = re_split_first name in
      if n \<in> set visited \<or> \<not> truthy (map_of types n) then dfs_worklist types worklist visited
      else dfs_worklist types
             (map ftype (case map_of types n of None \<Rightarrow> [] | Some children \<Rightarrow> children) @ worklist)
             (visited @ [n]))"
  by pat_completeness auto
termination
  by (relation "measures [\<lambda>(types, worklist, visited). unvisited types visited,
                         \<lambda>(types, worklist, visited). length worklist]")
    (auto simp: unvisited_visit)

declare dfs_worklist.simps(2) [simp del]

text \<open>\<open>closed_in types R n\<close>: every dependency a field of \<open>n\<close> names is in \<open>R\<close>.\<close>

definition closed_in :: "typeset \<Rightarrow> string set \<Rightarrow> string \<Rightarrow> bool" where
  "closed_in types R n =
     (\<forall>children f. map_of types n = Some children \<longrightarrow> f \<in> set children \<longrightarrow>
        truthy (map_of types (re_split_first (ftype f))) \<longrightarrow> re_split_first (ftype f) \<in> R)"

text \<open>The encoding of one type in the canonical type string.\<close>

definition type_signature :: "typeset \<Rightarrow> string \<Rightarrow> string" where
  "type_signature types name =
     name @ ''('' @
     py_join '','' (map (\<lambda>t. ftype t @ '' '' @ fname t)
                     (case map_of types name of None \<Rightarrow> [] | Some children \<Rightarrow> children)) @
     '')''"

text \<open>
  The type \<^verbatim>\<open>_encode_field\<close> returns beside the value: it depends on the declared type
  alone.
\<close>

definition field_tag :: "typeset \<Rightarrow> string \<Rightarrow> string" where
  "field_tag types typ =
     (if map_of types typ \<noteq> None \<or> typ = ''bytes'' \<or> typ = ''string'' \<or>
         (typ \<noteq> [] \<and> last typ = CHR '']'')
      then ''bytes32'' else typ)"

section \<open>Properties of find\_type\_dependencies\<close>

lemma re_split_first_idem [simp]: "re_split_first (re_split_first s) = re_split_first s"
  by (simp add: re_split_first_def)

lemma re_split_first_decomp:
  "\<exists>rest. s = re_split_first s @ rest \<and> list_all is_word_char (re_split_first s) \<and>
          (rest = [] \<or> \<not> is_word_char (hd rest))"
proof (intro exI conjI)
  show "s = re_split_first s @ dropWhile is_word_char s"
    by (simp add: re_split_first_def)
  show "list_all is_word_char (re_split_first s)"
    unfolding re_split_first_def list_all_iff by (auto dest: set_takeWhileD)
  show "dropWhile is_word_char s = [] \<or> \<not> is_word_char (hd (dropWhile is_word_char s))"
    using hd_dropWhile[of is_word_char s] by blast
qed

lemma find_type_dependencies_skip:
  "re_split_first pt \<in> set rs \<or> \<not> truthy (map_of types (re_split_first pt)) \<Longrightarrow>
   find_type_dependencies pt types rs = rs"
  by (simp add: find_type_dependencies.simps)

lemma find_type_dependencies_visit:
  "re_split_first pt \<notin> set rs \<Longrightarrow> map_of types (re_split_first pt) = Some children \<Longrightarrow>
   children \<noteq> [] \<Longrightarrow>
   find_type_dependencies pt types rs =
     find_deps_fields children types (rs @ [re_split_first pt])"
  by (simp add: find_type_dependencies.simps truthy_def)

lemma find_type_dependencies_stripped:
  "find_type_dependencies pt types rs = find_type_dependencies (re_split_first pt) types rs"
  by (simp add: find_type_dependencies.simps)

lemma find_deps_fields_Cons:
  "find_deps_fields (f # rest) types rs =
   find_deps_fields rest types (find_type_dependencies (ftype f) types rs)"
  by (simp add: Let_def)

lemma depends_on_target: "depends_on types n q \<Longrightarrow> truthy (map_of types q)"
  by (induction rule: depends_on.induct) auto

lemma depends_on_child:
  assumes "depends_on types c q"
    and "map_of types p = Some children" and "f \<in> set children"
    and "c = re_split_first (ftype f)" and "truthy (map_of types p)"
  shows "depends_on types p q"
  using assms
proof (induction rule: depends_on.induct)
  case (start n)
  then show ?case using depends_on.step[OF depends_on.start] by blast
next
  case (step n m children' f')
  then show ?case using depends_on.step by blast
qed

lemma find_deps_extends:
  "\<exists>new. find_type_dependencies pt types rs = rs @ new"
  "\<exists>new. find_deps_fields fs types rs = rs @ new"
proof (induction pt types rs and fs types rs
    rule: find_type_dependencies_find_deps_fields.induct)
  case (1 primary_type types results)
  then show ?case
    by (auto simp: find_type_dependencies.simps[of primary_type types results] Let_def
        split: option.splits)
next
  case (2 types results)
  then show ?case by simp
next
  case (3 f rest types results)
  then show ?case by (auto simp: Let_def)
qed

lemma find_deps_distinct:
  "distinct rs \<Longrightarrow> distinct (find_type_dependencies pt types rs)"
  "distinct rs \<Longrightarrow> distinct (find_deps_fields fs types rs)"
proof (induction pt types rs and fs types rs
    rule: find_type_dependencies_find_deps_fields.induct)
  case (1 primary_type types results)
  then show ?case
    by (auto simp: find_type_dependencies.simps[of primary_type types results] Let_def
        split: option.splits)
next
  case (2 types results)
  then show ?case by simp
next
  case (3 f rest types results)
  then show ?case by (auto simp: Let_def)
qed

text \<open>Soundness: whatever the traversal adds is a dependency of where it started.\<close>

lemma find_deps_sound:
  "set (find_type_dependencies pt types rs)
     \<subseteq> set rs \<union> {q. depends_on types (re_split_first pt) q}"
  "set (find_deps_fields fs types rs)
     \<subseteq> set rs \<union> {q. \<exists>f \<in> set fs. depends_on types (re_split_first (ftype f)) q}"
proof (induction pt types rs and fs types rs
    rule: find_type_dependencies_find_deps_fields.induct)
  case (1 primary_type types results)
  let ?p = "re_split_first primary_type"
  show ?case
  proof (cases "?p \<in> set results \<or> \<not> truthy (map_of types ?p)")
    case True
    then show ?thesis by (simp add: find_type_dependencies_skip)
  next
    case False
    then obtain children where ch: "map_of types ?p = Some children" "children \<noteq> []"
      by (auto simp: truthy_def split: option.splits)
    have tr: "truthy (map_of types ?p)" using False by simp
    have eq: "find_type_dependencies primary_type types results =
        find_deps_fields children types (results @ [?p])"
      using False ch by (simp add: find_type_dependencies_visit)
    have IH: "set (find_deps_fields children types (results @ [?p]))
      \<subseteq> set (results @ [?p]) \<union>
         {q. \<exists>f\<in>set children. depends_on types (re_split_first (ftype f)) q}"
      using "1.IH"[OF refl False ch(1)] .
    show ?thesis
      unfolding eq using IH depends_on.start[OF tr] depends_on_child[OF _ ch(1) _ refl tr]
      by auto
  qed
next
  case (2 types results)
  then show ?case by simp
next
  case (3 f rest types results)
  show ?case
    using "3.IH"(1) "3.IH"(2)[OF refl]
    by (auto simp: Let_def)
qed

text \<open>
  Completeness, through an invariant of the traversal: the start is in the result, and
  every name the call added has all its dependencies in the result.
\<close>

lemma closed_in_mono: "closed_in types R n \<Longrightarrow> R \<subseteq> R' \<Longrightarrow> closed_in types R' n"
  unfolding closed_in_def by blast

lemma find_deps_closed:
  "set rs \<subseteq> set (find_type_dependencies pt types rs) \<and>
   (truthy (map_of types (re_split_first pt)) \<longrightarrow>
      re_split_first pt \<in> set (find_type_dependencies pt types rs)) \<and>
   (\<forall>n \<in> set (find_type_dependencies pt types rs) - set rs.
      closed_in types (set (find_type_dependencies pt types rs)) n)"
  "set rs \<subseteq> set (find_deps_fields fs types rs) \<and>
   (\<forall>f \<in> set fs. truthy (map_of types (re_split_first (ftype f))) \<longrightarrow>
      re_split_first (ftype f) \<in> set (find_deps_fields fs types rs)) \<and>
   (\<forall>n \<in> set (find_deps_fields fs types rs) - set rs.
      closed_in types (set (find_deps_fields fs types rs)) n)"
proof (induction pt types rs and fs types rs
    rule: find_type_dependencies_find_deps_fields.induct)
  case (1 primary_type types results)
  let ?p = "re_split_first primary_type"
  show ?case
  proof (cases "?p \<in> set results \<or> \<not> truthy (map_of types ?p)")
    case True
    then show ?thesis by (auto simp add: find_type_dependencies_skip)
  next
    case False
    then obtain children where ch: "map_of types ?p = Some children" "children \<noteq> []"
      by (auto simp: truthy_def split: option.splits)
    let ?R = "find_deps_fields children types (results @ [?p])"
    have eq: "find_type_dependencies primary_type types results = ?R"
      using False ch by (simp add: find_type_dependencies_visit)
    note IH = "1.IH"[OF refl False ch(1)]
    have sub: "set (results @ [?p]) \<subseteq> set ?R" using IH by blast
    have kids: "\<forall>f \<in> set children. truthy (map_of types (re_split_first (ftype f))) \<longrightarrow>
        re_split_first (ftype f) \<in> set ?R"
      using IH by blast
    have cl: "\<forall>n \<in> set ?R - set (results @ [?p]). closed_in types (set ?R) n"
      using IH by blast
    have "closed_in types (set ?R) ?p"
      unfolding closed_in_def using kids ch(1) by auto
    with cl have "\<forall>n \<in> set ?R - set results. closed_in types (set ?R) n"
      by auto
    with sub show ?thesis unfolding eq by auto
  qed
next
  case (2 types results)
  then show ?case by simp
next
  case (3 f rest types results)
  let ?R1 = "find_type_dependencies (ftype f) types results"
  let ?R = "find_deps_fields rest types ?R1"
  have eq: "find_deps_fields (f # rest) types results = ?R" by (simp add: Let_def)
  note IH1 = "3.IH"(1)
  have IH2: "set ?R1 \<subseteq> set ?R \<and>
   (\<forall>f \<in> set rest. truthy (map_of types (re_split_first (ftype f))) \<longrightarrow>
      re_split_first (ftype f) \<in> set ?R) \<and>
   (\<forall>n \<in> set ?R - set ?R1. closed_in types (set ?R) n)"
    using "3.IH"(2)[OF refl] by simp
  have a: "set results \<subseteq> set ?R" using IH1 IH2 by blast
  have b: "\<forall>g \<in> set (f # rest). truthy (map_of types (re_split_first (ftype g))) \<longrightarrow>
      re_split_first (ftype g) \<in> set ?R"
    using IH1 IH2 by auto
  have c: "closed_in types (set ?R) n" if "n \<in> set ?R - set results" for n
  proof (cases "n \<in> set ?R1")
    case True
    with that IH1 have "closed_in types (set ?R1) n" by blast
    then show ?thesis using IH2 closed_in_mono by blast
  next
    case False
    with that IH2 show ?thesis by blast
  qed
  show ?case unfolding eq using a b c by blast
qed

lemma find_deps_complete_aux:
  assumes "depends_on types n q" and "n = re_split_first pt"
  shows "q \<in> set (find_type_dependencies pt types [])"
  using assms
proof (induction rule: depends_on.induct)
  case (start n)
  then show ?case using find_deps_closed(1)[of "[]" pt types] by blast
next
  case (step n m children f)
  then have "m \<in> set (find_type_dependencies pt types [])" by simp
  then have "closed_in types (set (find_type_dependencies pt types [])) m"
    using find_deps_closed(1)[of "[]" pt types] by auto
  then show ?case using step.hyps unfolding closed_in_def by blast
qed

lemma find_type_dependencies_set:
  "set (find_type_dependencies pt types []) = {q. depends_on types (re_split_first pt) q}"
  using find_deps_sound(1)[of pt types "[]"] find_deps_complete_aux[of types _ _ pt] by auto

lemma find_type_dependencies_first:
  assumes "truthy (map_of types (re_split_first pt))"
  shows "\<exists>rest. find_type_dependencies pt types [] = re_split_first pt # rest"
proof -
  from assms obtain children where
    ch: "map_of types (re_split_first pt) = Some children" "children \<noteq> []"
    by (auto simp: truthy_def split: option.splits)
  then have "find_type_dependencies pt types [] =
      find_deps_fields children types ([] @ [re_split_first pt])"
    by (intro find_type_dependencies_visit) simp_all
  with find_deps_extends(2)[of children types "[re_split_first pt]"] show ?thesis by auto
qed

lemma find_type_dependencies_appends:
  assumes "re_split_first pt \<notin> set rs" and "truthy (map_of types (re_split_first pt))"
  shows "\<exists>new. find_type_dependencies pt types rs = rs @ re_split_first pt # new"
proof -
  from assms obtain children where
    ch: "map_of types (re_split_first pt) = Some children" "children \<noteq> []"
    by (auto simp: truthy_def split: option.splits)
  then have "find_type_dependencies pt types rs =
      find_deps_fields children types (rs @ [re_split_first pt])"
    using assms(1) by (intro find_type_dependencies_visit)
  with find_deps_extends(2)[of children types "rs @ [re_split_first pt]"] show ?thesis by auto
qed

text \<open>The recursive traversal visits in the order of the worklist traversal.\<close>

lemma find_deps_worklist:
  "dfs_worklist types (pt # worklist) rs = dfs_worklist types worklist (find_type_dependencies pt types rs)"
  "dfs_worklist types (map ftype fs @ worklist) rs = dfs_worklist types worklist (find_deps_fields fs types rs)"
proof (induction pt types rs and fs types rs arbitrary: worklist and worklist
    rule: find_type_dependencies_find_deps_fields.induct)
  case (1 primary_type types results)
  let ?p = "re_split_first primary_type"
  show ?case
  proof (cases "?p \<in> set results \<or> \<not> truthy (map_of types ?p)")
    case True
    then show ?thesis
      by (simp add: find_type_dependencies_skip dfs_worklist.simps(2))
  next
    case False
    then obtain children where ch: "map_of types ?p = Some children" "children \<noteq> []"
      by (auto simp: truthy_def split: option.splits)
    have "dfs_worklist types (primary_type # worklist) results =
        dfs_worklist types (map ftype children @ worklist) (results @ [?p])"
      using False ch by (simp add: dfs_worklist.simps(2))
    also have "\<dots> = dfs_worklist types worklist (find_deps_fields children types (results @ [?p]))"
      using "1.IH"[OF refl False ch(1)] .
    also have "find_deps_fields children types (results @ [?p]) =
        find_type_dependencies primary_type types results"
      using False ch by (simp add: find_type_dependencies_visit)
    finally show ?thesis .
  qed
next
  case (2 types results)
  then show ?case by simp
next
  case (3 f rest types results)
  have "dfs_worklist types (map ftype (f # rest) @ worklist) results =
      dfs_worklist types (map ftype rest @ worklist) (find_type_dependencies (ftype f) types results)"
    using "3.IH"(1) by simp
  also have "\<dots> = dfs_worklist types worklist
      (find_deps_fields rest types (find_type_dependencies (ftype f) types results))"
    using "3.IH"(2)[OF refl] by simp
  finally show ?case by (simp add: find_deps_fields_Cons)
qed

lemma find_type_dependencies_worklist:
  "find_type_dependencies pt types [] = dfs_worklist types [pt] []"
  by (simp add: find_deps_worklist(1))

section \<open>Properties of encode\_type\<close>

lemma encode_type_loop_composite:
  "\<forall>d \<in> set deps. truthy (map_of types d) \<Longrightarrow>
   encode_type_loop deps types result = Inr (result @ concat (map (type_signature types) deps))"
proof (induction deps arbitrary: result)
  case Nil
  then show ?case by simp
next
  case (Cons d deps)
  then obtain children where "map_of types d = Some children" "children \<noteq> []"
    by (auto simp: truthy_def split: option.splits)
  with Cons show ?case by (simp add: type_signature_def)
qed

lemma find_type_dependencies_composite:
  "d \<in> set (find_type_dependencies pt types []) \<Longrightarrow> truthy (map_of types d)"
  using depends_on_target by (simp add: find_type_dependencies_set)

lemma encode_type_composite:
  assumes "truthy (map_of types primary_type)"
  shows "encode_type primary_type types =
     Inr (type_signature types primary_type @
          concat (map (type_signature types)
            (sort (filter (\<lambda>d. d \<noteq> primary_type) (find_type_dependencies primary_type types [])))))"
proof -
  have "\<forall>d \<in> set (primary_type #
      sort (filter (\<lambda>d. d \<noteq> primary_type) (find_type_dependencies primary_type types []))).
      truthy (map_of types d)"
    using assms find_type_dependencies_composite by auto
  then have "encode_type_loop (primary_type #
      sort (filter (\<lambda>d. d \<noteq> primary_type) (find_type_dependencies primary_type types [])))
      types [] =
    Inr ([] @ concat (map (type_signature types) (primary_type #
      sort (filter (\<lambda>d. d \<noteq> primary_type) (find_type_dependencies primary_type types [])))))"
    by (rule encode_type_loop_composite)
  then show ?thesis
    by (simp add: encode_type_def Let_def del: encode_type_loop.simps)
qed

lemma encode_type_not_composite:
  assumes "\<not> truthy (map_of types primary_type)"
  shows "\<exists>e. encode_type primary_type types = Inl e"
  using assms by (auto simp: encode_type_def truthy_def Let_def split: option.splits)


section \<open>Properties of encode\_data\<close>

lemma encode_fields_Cons:
  "encode_fields P types (f # rest) data tys vals =
     (case encode_entry P types data f of
        Inl e \<Rightarrow> Inl e
      | Inr tv \<Rightarrow> encode_fields P types rest data (tys @ [fst tv]) (vals @ [snd tv]))"
  by (simp add: encode_entry_def split: sum.splits)

lemma encode_fields_sequence:
  "encode_fields P types fs data tys vals =
     (case sequence_err (map (encode_entry P types data) fs) of
        Inl e \<Rightarrow> Inl e
      | Inr tvs \<Rightarrow> Inr (tys @ map fst tvs, vals @ map snd tvs))"
proof (induction fs arbitrary: tys vals)
  case Nil
  then show ?case by simp
next
  case (Cons f fs)
  show ?case
    unfolding encode_fields_Cons
    by (simp add: Cons.IH split: sum.splits)
qed

lemma sequence_err_append:
  "sequence_err (xs @ ys) =
     (case sequence_err xs of
        Inl e \<Rightarrow> Inl e
      | Inr vs \<Rightarrow> (case sequence_err ys of Inl e \<Rightarrow> Inl e | Inr ws \<Rightarrow> Inr (vs @ ws)))"
  by (induction xs) (auto split: sum.splits)

lemma sequence_err_all_Inr:
  "\<forall>x \<in> set xs. \<exists>v. x = Inr v \<Longrightarrow> \<exists>vs. sequence_err xs = Inr vs \<and> length vs = length xs"
  by (induction xs) (auto split: sum.splits)

lemma encode_data_composite:
  assumes "map_of types primary_type = Some children" and "children \<noteq> []"
  shows "\<exists>h. hash_type P primary_type types = Inr h \<and>
     encode_data P primary_type data types =
       (case sequence_err (map (encode_entry P types data) children) of
          Inl e \<Rightarrow> Inl e
        | Inr tvs \<Rightarrow> abi_encode P (''bytes32'' # map fst tvs) (PyBytes h # map snd tvs))"
proof -
  from assms have "truthy (map_of types primary_type)" by (simp add: truthy_def)
  then obtain s where "encode_type primary_type types = Inr s"
    using encode_type_composite by blast
  then have h: "hash_type P primary_type types = Inr (keccak256 P (encode_utf8 s))"
    by (simp add: hash_type_def)
  show ?thesis
    by (rule exI[of _ "keccak256 P (encode_utf8 s)"])
      (simp add: h encode_data.simps assms(1) encode_fields_sequence split: sum.splits)
qed

lemma encode_field_null_composite:
  "map_of types typ \<noteq> None \<Longrightarrow>
   encode_field P types name typ PyNone = Inr (''bytes32'', PyStr zero_bytes32_hex)"
  by (simp add: encode_field.simps)

lemma is_int_type_bytes32 [simp]: "\<not> is_int_type ''bytes32''"
  by (simp add: is_int_type_def)

lemma encode_entry_null_composite:
  "map_of types (ftype f) \<noteq> None \<Longrightarrow> py_getitem data (fname f) = Inr PyNone \<Longrightarrow>
   encode_entry P types data f = Inr (''bytes32'', PyStr zero_bytes32_hex)"
  by (simp add: encode_entry_def encode_field_null_composite convert_int_value_def)


lemma encode_entry_absent_key:
  "map_of kvs (fname f) = None \<Longrightarrow>
   encode_entry P types (PyDict kvs) f = Inl (KeyError (fname f))"
  by (simp add: encode_entry_def)

lemma sequence_err_has_Inl:
  "Inl e \<in> set xs \<Longrightarrow> \<exists>e'. sequence_err xs = Inl e'"
  by (induction xs) (auto split: sum.splits)

lemma encode_field_missing_value:
  "map_of types typ = None \<Longrightarrow>
   encode_field P types name typ PyNone =
     Inl (Exception (''Missing value for field '' @ name @ '' of type <class 'type'>''))"
  by (simp add: encode_field.simps)

lemma encode_field_tag:
  "encode_field P types name typ v = Inr tv \<Longrightarrow> fst tv = field_tag types typ"
  by (auto simp: encode_field.simps[of P types name "typ" v] field_tag_def Let_def
      split: if_splits sum.splits pyval.splits)

lemma dict_fold_same_key:
  "\<forall>p \<in> set pairs. fst p = k \<Longrightarrow>
   foldl (\<lambda>d kv. dict_setitem (fst kv) (snd kv) d) [(k, v0)] pairs =
     [(k, snd (last ((k, v0) # pairs)))]"
  by (induction pairs arbitrary: v0) auto

lemma py_dict_same_key:
  assumes "pairs \<noteq> []" and "\<forall>p \<in> set pairs. fst p = k"
  shows "py_dict pairs = [(k, snd (last pairs))]"
proof (cases pairs)
  case Nil
  with assms show ?thesis by simp
next
  case (Cons p ps)
  with assms have "fst p = k" "\<forall>q \<in> set ps. fst q = k" by auto
  then show ?thesis
    using dict_fold_same_key[of ps k "snd p"] Cons
    by (cases p) (auto simp: py_dict_def)
qed

lemma sequence_err_map_tags:
  "sequence_err (map (encode_field P types name typ) vs) = Inr pairs \<Longrightarrow>
   \<forall>p \<in> set pairs. fst p = field_tag types typ"
proof (induction vs arbitrary: pairs)
  case Nil
  then show ?case by simp
next
  case (Cons v vs)
  from Cons.prems obtain tv pvs where
    tv: "encode_field P types name typ v = Inr tv"
    and pvs: "sequence_err (map (encode_field P types name typ) vs) = Inr pvs"
    and pairs: "pairs = tv # pvs"
    by (auto split: sum.splits)
  from tv have "fst tv = field_tag types typ" by (rule encode_field_tag)
  with Cons.IH[OF pvs] pairs show ?case by simp
qed

lemma encode_field_array:
  assumes "map_of types typ = None" and "typ \<noteq> ''bytes''" and "typ \<noteq> ''string''"
    and "typ \<noteq> []" and "last typ = CHR '']''"
  shows "encode_field P types name typ (PyList vs) =
     (case sequence_err (map (encode_field P types name (butlast (butlast typ))) vs) of
        Inl e \<Rightarrow> Inl e
      | Inr pairs \<Rightarrow>
          (case abi_encode P (map fst (py_dict pairs)) (map snd (py_dict pairs)) of
             Inl e \<Rightarrow> Inl e
           | Inr enc \<Rightarrow> Inr (''bytes32'', PyBytes (keccak256 P enc))))"
  using assms
  by (simp add: encode_field.simps[of P types name "typ" "PyList vs"] Let_def split: sum.splits)

lemma encode_field_passthrough:
  assumes "map_of types typ = None" and "typ \<noteq> ''bytes''" and "typ \<noteq> ''string''"
    and "typ = [] \<or> last typ \<noteq> CHR '']''" and "v \<noteq> PyNone"
  shows "encode_field P types name typ v = Inr (typ, v)"
  using assms by (auto simp: encode_field.simps[of P types name "typ" v])

lemma sequence_err_passthrough:
  assumes "\<forall>u \<in> set vs. f u = Inr (t, u)"
  shows "sequence_err (map f vs) = Inr (map (\<lambda>u. (t, u)) vs)"
  using assms by (induction vs) auto

section \<open>Properties of the byte and text conversions\<close>

lemma big_endian_to_int_snoc:
  "big_endian_to_int (bs @ [b]) = 256 * big_endian_to_int bs + uint b"
  by (simp add: big_endian_to_int_def)

lemma big_endian_to_int_bounds:
  "0 \<le> big_endian_to_int bs \<and> big_endian_to_int bs < 256 ^ length bs"
proof (induction bs rule: rev_induct)
  case Nil
  then show ?case by (simp add: big_endian_to_int_def)
next
  case (snoc b bs)
  have "uint b < 256" using uint_bounded[of b] by simp
  moreover have "0 \<le> uint b" by simp
  ultimately show ?case
    using snoc by (simp add: big_endian_to_int_snoc) 
qed

lemma big_endian_digits_roundtrip:
  "length bs = k \<Longrightarrow> big_endian_digits k (big_endian_to_int bs) = bs"
proof (induction bs arbitrary: k rule: rev_induct)
  case Nil
  then show ?case by simp
next
  case (snoc b bs)
  then obtain k' where k: "k = Suc k'" "length bs = k'" by (cases k) auto
  have ub: "0 \<le> uint b" "uint b < 256" using uint_bounded[of b] by simp_all
  have d: "(256 * big_endian_to_int bs + uint b) div 256 = big_endian_to_int bs"
    using ub by simp
  have m: "uint b mod 256 = uint b"
    using ub by simp
  show ?case
    using snoc.IH[OF k(2)] by (simp add: k big_endian_to_int_snoc d m)
qed

lemma int_to_bytes_roundtrip:
  "length bs = k \<Longrightarrow> int_to_bytes (big_endian_to_int bs) k = Inr bs"
  using big_endian_to_int_bounds[of bs]
  by (auto simp: int_to_bytes_def big_endian_digits_roundtrip)

lemma length_bytes_hex: "length (bytes_hex bs) = 2 * length bs"
  by (induction bs) (simp_all add: bytes_hex_def hex_of_byte_def)

lemma hex_digit_table:
  "list_all (\<lambda>n. hex_value (hex_digit n) = Some n \<and> \<not> is_space (hex_digit n)) [0..<16]"
  by code_simp

lemma hex_digit_props:
  "n < 16 \<Longrightarrow> hex_value (hex_digit n) = Some n \<and> \<not> is_space (hex_digit n)"
  using hex_digit_table unfolding list_all_iff by simp

lemma byte_of_nibbles: "of_nat (16 * (unat b div 16) + unat b mod 16) = (b :: byte)"
  by simp

lemma bytes_fromhex_hex: "bytes_fromhex (bytes_hex bs) = Inr bs"
proof (induction bs)
  case Nil
  then show ?case by (simp add: bytes_hex_def)
next
  case (Cons b bs)
  have "unat b < 256" using unsigned_less[of b, where 'a = nat] by simp
  then have hi: "unat b div 16 < 16" by simp
  have lo: "unat b mod 16 < 16" by simp
  have "bytes_hex (b # bs) = hex_digit (unat b div 16) # hex_digit (unat b mod 16) # bytes_hex bs"
    by (simp add: bytes_hex_def hex_of_byte_def)
  then show ?case
    using hex_digit_props[OF hi] hex_digit_props[OF lo] Cons.IH
    by (simp add: byte_of_nibbles)
qed

lemma int_to_bytes_recovery_id:
  "v = 0 \<or> v = 1 \<Longrightarrow> int_to_bytes (uint (v :: byte) + 27) 1 = Inr [v + 27]"
  by (auto simp: int_to_bytes_def)

section \<open>Properties of eip712\_encode\<close>

lemma bytes_fromhex_magic: "bytes_fromhex ''1901'' = Inr [0x19, 0x01]"
  by (simp add: hex_value_def is_space_def)

lemma eip712_encode_unfold:
  "eip712_encode P td =
     (case hash_struct P ''EIP712Domain'' (td_domain td) (td_types td) of
        Inl e \<Rightarrow> Inl e
      | Inr h \<Rightarrow>
          if td_primaryType td \<noteq> ''EIP712Domain'' then
            (case td_message td of
               None \<Rightarrow> Inl (KeyError ''message'')
             | Some m \<Rightarrow>
                 (case hash_struct P (td_primaryType td) m (td_types td) of
                    Inl e \<Rightarrow> Inl e
                  | Inr hm \<Rightarrow> Inr [[0x19, 0x01], h, hm]))
          else Inr [[0x19, 0x01], h])"
  unfolding eip712_encode_def bytes_fromhex_magic
  by (simp add: Let_def split: sum.splits option.splits)

lemma hash_struct_length:
  "\<forall>b. length (keccak256 P b) = 32 \<Longrightarrow> hash_struct P pt data types = Inr h \<Longrightarrow> length h = 32"
  by (auto simp: hash_struct_def split: sum.splits)

section \<open>Evaluation on the examples\<close>

lemmas eval_defs = encode_data.simps encode_field.simps encode_entry_def hash_type_def
     encode_type_def find_type_dependencies.simps re_split_first_def is_word_char_def truthy_def
     convert_int_value_def is_int_type_def is_digit_def encode_utf8_def py_dict_def

lemma toy_prims_simps [simp]:
  "abi_encode toy_prims tys vals = Inr (encode_utf8 (concat tys))"
  "keccak256 toy_prims b = take 32 (b @ replicate 32 0)"
  by (simp_all add: toy_prims_def)

lemma toy_keccak_length: "\<forall>b. length (keccak256 toy_prims b) = 32"
  by (simp add: min_def)

section \<open>The claims\<close>



text \<open>
  C2, at the code: for a field whose declared type ends in \<^verbatim>\<open>]\<close>, the pairs of the
  elements go through \<^verbatim>\<open>dict(...)\<close>, keyed by their type; all elements have the same
  type, so only the last pair is left. The field's encoding for a list is the one for the
  list of its last element alone: neither the content nor the order of the elements
  before the last enters it.
\<close>

theorem encode_field_array_keeps_last:
  assumes "map_of types typ = None" and "typ \<noteq> ''bytes''" and "typ \<noteq> ''string''"
    and "typ \<noteq> []" and "last typ = CHR '']''"
    and "\<forall>u \<in> set vs. \<exists>tv. encode_field P types name (butlast (butlast typ)) u = Inr tv"
  shows "encode_field P types name typ (PyList (vs @ [v])) =
         encode_field P types name typ (PyList [v])"
proof -
  let ?g = "encode_field P types name (butlast (butlast typ))"
  from assms(6) obtain pvs where pvs: "sequence_err (map ?g vs) = Inr pvs"
    using sequence_err_all_Inr[of "map ?g vs"] by auto
  show ?thesis
  proof (cases "?g v")
    case (Inl e)
    then show ?thesis
      by (simp add: encode_field_array[OF assms(1-5)] sequence_err_append pvs)
  next
    case (Inr tv)
    have all: "sequence_err (map ?g (vs @ [v])) = Inr (pvs @ [tv])"
      by (simp add: sequence_err_append pvs Inr)
    then have tags: "\<forall>p \<in> set (pvs @ [tv]). fst p = field_tag types (butlast (butlast typ))"
      by (rule sequence_err_map_tags)
    have "py_dict (pvs @ [tv]) = [(field_tag types (butlast (butlast typ)), snd tv)]"
      using py_dict_same_key[OF _ tags] by simp
    moreover have "py_dict [tv] = [(field_tag types (butlast (butlast typ)), snd tv)]"
      using py_dict_same_key[of "[tv]"] tags by simp
    ultimately show ?thesis
      using all Inr by (simp add: encode_field_array[OF assms(1-5)])
  qed
qed

theorem encode_field_array_keeps_last_witness:
  "map_of example_types ''Message[]'' = None \<and>
   butlast (butlast ''Message[]'') = ''Message'' \<and>
   (\<exists>tv. encode_field toy_prims example_types ''messages'' ''Message'' message_1 = Inr tv) \<and>
   message_1 \<noteq> message_2 \<and>
   encode_field toy_prims example_types ''messages'' ''Message[]'' (PyList [message_1, message_2]) =
   encode_field toy_prims example_types ''messages'' ''Message[]'' (PyList [message_2])"
proof -
  have key: "map_of example_types ''Message[]'' = None"
    by (simp add: example_types_def)
  have parsed: "butlast (butlast ''Message[]'') = ''Message''"
    by simp
  obtain tv where tv: "encode_field toy_prims example_types ''messages'' ''Message'' message_1 = Inr tv"
    by (simp add: eval_defs example_types_def message_1_def)
  then have elems: "\<forall>u \<in> set [message_1].
      \<exists>tv. encode_field toy_prims example_types ''messages'' (butlast (butlast ''Message[]'')) u = Inr tv"
    by simp
  have "encode_field toy_prims example_types ''messages'' ''Message[]'' (PyList ([message_1] @ [message_2])) =
      encode_field toy_prims example_types ''messages'' ''Message[]'' (PyList [message_2])"
    by (rule encode_field_array_keeps_last[OF key _ _ _ _ elems]) simp_all
  then show ?thesis
    using key tv by (simp add: message_1_def message_2_def)
qed



text \<open>
  C4, at the code: a field whose declared type is not a key of the TypeSet and whose
  value is \<^verbatim>\<open>None\<close> makes \<open>encode_data\<close> fail, when the fields before it encode, with an
  exception whose message names the field and, in the place of the declared type, the
  text \<^verbatim>\<open><class 'type'>\<close>: the same message whatever the declared type is.
\<close>

theorem encode_data_missing_value_message:
  assumes "map_of types primary_type = Some (pre @ f # post)"
    and "map_of types (ftype f) = None"
    and "py_getitem data (fname f) = Inr PyNone"
    and "sequence_err (map (encode_entry P types data) pre) = Inr tvs"
  shows "encode_data P primary_type data types =
     Inl (Exception (''Missing value for field '' @ fname f @ '' of type <class 'type'>''))"
proof -
  have entry: "encode_entry P types data f =
      Inl (Exception (''Missing value for field '' @ fname f @ '' of type <class 'type'>''))"
    using assms(2,3) by (simp add: encode_entry_def encode_field_missing_value)
  obtain h where enc: "encode_data P primary_type data types =
       (case sequence_err (map (encode_entry P types data) (pre @ f # post)) of
          Inl e \<Rightarrow> Inl e
        | Inr tvs \<Rightarrow> abi_encode P (''bytes32'' # map fst tvs) (PyBytes h # map snd tvs))"
    using encode_data_composite[OF assms(1), of P data] by auto
  show ?thesis
    by (simp add: enc sequence_err_append assms(4) entry)
qed

theorem encode_data_missing_value_message_witness:
  "map_of person_types ''Person'' =
     Some ([\<lparr>fname = ''name'', ftype = ''string''\<rparr>] @ \<lparr>fname = ''wallet'', ftype = ''address''\<rparr> # []) \<and>
   map_of person_types ''address'' = None \<and>
   py_getitem (PyDict [(''name'', PyStr ''Cow''), (''wallet'', PyNone)]) ''wallet'' = Inr PyNone \<and>
   (\<exists>tvs. sequence_err (map (encode_entry toy_prims person_types
              (PyDict [(''name'', PyStr ''Cow''), (''wallet'', PyNone)]))
            [\<lparr>fname = ''name'', ftype = ''string''\<rparr>]) = Inr tvs) \<and>
   encode_data toy_prims ''Person'' (PyDict [(''name'', PyStr ''Cow''), (''wallet'', PyNone)])
       person_types =
     Inl (Exception ''Missing value for field wallet of type <class 'type'>'')"
proof -
  let ?data = "PyDict [(''name'', PyStr ''Cow''), (''wallet'', PyNone)]"
  let ?wallet = "\<lparr>fname = ''wallet'', ftype = ''address''\<rparr>"
  have ch: "map_of person_types ''Person'' =
     Some ([\<lparr>fname = ''name'', ftype = ''string''\<rparr>] @ ?wallet # [])"
    by (simp add: person_types_def)
  have scalar: "map_of person_types (ftype ?wallet) = None"
    by (simp add: person_types_def)
  have null: "py_getitem ?data (fname ?wallet) = Inr PyNone"
    by simp
  obtain tvs where pre: "sequence_err (map (encode_entry toy_prims person_types ?data)
      [\<lparr>fname = ''name'', ftype = ''string''\<rparr>]) = Inr tvs"
    by (simp add: eval_defs person_types_def)
  from encode_data_missing_value_message[OF ch scalar null pre]
  show ?thesis using ch scalar pre by simp
qed

text \<open>
  C5. When the struct hash of the domain Record against \<open>EIP712Domain\<close> is computed,
  \<open>eip712_encode\<close> returns the two segments \<open>0x1901\<close> and that hash if the primary type
  is \<open>EIP712Domain\<close>; otherwise, when the message is present and its struct hash against
  the primary type is computed, it returns those two segments and that hash. Whatever it
  returns has this shape: two segments for the primary type \<open>EIP712Domain\<close> and three
  for any other, the first of them \<open>0x1901\<close>, the second the struct hash of the domain,
  the third the struct hash of the message; with a hash function of 32 bytes, every
  segment after the first has 32 bytes.
\<close>

theorem eip712_encode_segments:
  "(\<forall>hd. hash_struct P ''EIP712Domain'' (td_domain td) (td_types td) = Inr hd \<longrightarrow>
      td_primaryType td = ''EIP712Domain'' \<longrightarrow>
      eip712_encode P td = Inr [[0x19, 0x01], hd]) \<and>
   (\<forall>hd m hm. hash_struct P ''EIP712Domain'' (td_domain td) (td_types td) = Inr hd \<longrightarrow>
      td_primaryType td \<noteq> ''EIP712Domain'' \<longrightarrow> td_message td = Some m \<longrightarrow>
      hash_struct P (td_primaryType td) m (td_types td) = Inr hm \<longrightarrow>
      eip712_encode P td = Inr [[0x19, 0x01], hd, hm]) \<and>
   (\<forall>parts. eip712_encode P td = Inr parts \<longrightarrow>
      length parts = (if td_primaryType td = ''EIP712Domain'' then 2 else 3) \<and>
      parts ! 0 = [0x19, 0x01] \<and>
      hash_struct P ''EIP712Domain'' (td_domain td) (td_types td) = Inr (parts ! 1) \<and>
      (td_primaryType td \<noteq> ''EIP712Domain'' \<longrightarrow>
         (\<exists>m. td_message td = Some m \<and>
              hash_struct P (td_primaryType td) m (td_types td) = Inr (parts ! 2))) \<and>
      ((\<forall>b. length (keccak256 P b) = 32) \<longrightarrow> (\<forall>seg \<in> set (tl parts). length seg = 32)))"
proof (intro conjI allI impI)
  fix hd
  assume "hash_struct P ''EIP712Domain'' (td_domain td) (td_types td) = Inr hd"
    and "td_primaryType td = ''EIP712Domain''"
  then show "eip712_encode P td = Inr [[0x19, 0x01], hd]"
    by (simp add: eip712_encode_unfold)
next
  fix hd m hm
  assume "hash_struct P ''EIP712Domain'' (td_domain td) (td_types td) = Inr hd"
    and "td_primaryType td \<noteq> ''EIP712Domain''" and "td_message td = Some m"
    and "hash_struct P (td_primaryType td) m (td_types td) = Inr hm"
  then show "eip712_encode P td = Inr [[0x19, 0x01], hd, hm]"
    by (simp add: eip712_encode_unfold)
next
  fix parts
  assume ok: "eip712_encode P td = Inr parts"
  then obtain hd where hd: "hash_struct P ''EIP712Domain'' (td_domain td) (td_types td) = Inr hd"
    by (auto simp: eip712_encode_unfold split: sum.splits)
  show "length parts = (if td_primaryType td = ''EIP712Domain'' then 2 else 3)"
    using ok hd
    by (auto simp: eip712_encode_unfold split: sum.splits option.splits if_splits)
  show "parts ! 0 = [0x19, 0x01]"
    using ok hd
    by (auto simp: eip712_encode_unfold split: sum.splits option.splits if_splits)
  show "hash_struct P ''EIP712Domain'' (td_domain td) (td_types td) = Inr (parts ! 1)"
    using ok hd
    by (auto simp: eip712_encode_unfold split: sum.splits option.splits if_splits)
  show "\<exists>m. td_message td = Some m \<and>
              hash_struct P (td_primaryType td) m (td_types td) = Inr (parts ! 2)"
    if "td_primaryType td \<noteq> ''EIP712Domain''"
    using ok hd that
    by (auto simp: eip712_encode_unfold split: sum.splits option.splits if_splits)
  show "\<forall>seg \<in> set (tl parts). length seg = 32" if "\<forall>b. length (keccak256 P b) = 32"
    using ok hd hash_struct_length[OF that]
    by (auto simp: eip712_encode_unfold split: sum.splits option.splits if_splits)
qed

theorem eip712_encode_segments_witness:
  "(\<forall>b. length (keccak256 toy_prims b) = 32) \<and>
   td_primaryType example_typed_data \<noteq> ''EIP712Domain'' \<and>
   td_primaryType example_domain_data = ''EIP712Domain'' \<and>
   (\<exists>hd m hm.
      hash_struct toy_prims ''EIP712Domain'' (td_domain example_typed_data) example_types = Inr hd \<and>
      td_message example_typed_data = Some m \<and>
      hash_struct toy_prims ''Mailbox'' m example_types = Inr hm \<and>
      eip712_encode toy_prims example_typed_data = Inr [[0x19, 0x01], hd, hm] \<and>
      eip712_encode toy_prims example_domain_data = Inr [[0x19, 0x01], hd] \<and>
      length hd = 32 \<and> length hm = 32)"
proof -
  let ?m = "PyDict [(''owner'', PyStr ''0x8e12f01dae5fe7f1122dc42f2cb084f2f9e8aa03''),
                    (''messages'', PyList [message_1, message_2])]"
  have pt: "td_primaryType example_typed_data \<noteq> ''EIP712Domain''"
    "td_primaryType example_domain_data = ''EIP712Domain''"
    by (simp_all add: example_typed_data_def example_domain_data_def)
  have ty: "td_types example_typed_data = example_types"
    "td_types example_domain_data = example_types"
    "td_domain example_domain_data = td_domain example_typed_data"
    by (simp_all add: example_typed_data_def example_domain_data_def)
  have msg: "td_message example_typed_data = Some ?m"
    by (simp add: example_typed_data_def)
  obtain hd where hd:
    "hash_struct toy_prims ''EIP712Domain'' (td_domain example_typed_data) example_types = Inr hd"
    by (simp add: hash_struct_def eval_defs example_typed_data_def example_types_def)
  obtain hm where hm: "hash_struct toy_prims ''Mailbox'' ?m example_types = Inr hm"
    by (simp add: hash_struct_def eval_defs example_types_def message_1_def message_2_def)
  have hd': "hash_struct toy_prims ''EIP712Domain'' (td_domain example_typed_data)
      (td_types example_typed_data) = Inr hd"
    using hd by (simp add: ty)
  have hd'': "hash_struct toy_prims ''EIP712Domain'' (td_domain example_domain_data)
      (td_types example_domain_data) = Inr hd"
    using hd by (simp add: ty)
  have hm': "hash_struct toy_prims (td_primaryType example_typed_data) ?m
      (td_types example_typed_data) = Inr hm"
    using hm by (simp add: example_typed_data_def)
  note enc = eip712_encode_segments[of toy_prims example_typed_data]
  note enc_dom = eip712_encode_segments[of toy_prims example_domain_data]
  have full: "eip712_encode toy_prims example_typed_data = Inr [[0x19, 0x01], hd, hm]"
    using enc hd' pt(1) msg hm' by blast
  have dom: "eip712_encode toy_prims example_domain_data = Inr [[0x19, 0x01], hd]"
    using enc_dom hd'' pt(2) by blast
  have "\<forall>seg \<in> set (tl [[0x19, 0x01], hd, hm]). length seg = 32"
    using enc full toy_keccak_length by blast
  then have "length hd = 32" "length hm = 32"
    by simp_all
  then show ?thesis
    using pt hd hm msg full dom toy_keccak_length by blast
qed

text \<open>
  C6, at the code: for a declared type \<open>base[N]\<close>, \<^verbatim>\<open>typ[:-2]\<close> leaves \<open>base[\<close> followed by
  all digits of \<open>N\<close> but the last, and not \<open>base\<close>. That text is no key of the TypeSet, so
  the elements are not encoded as structs: the last element is handed to the ABI encoder
  as it is, under that text as its type.
\<close>

theorem encode_field_fixed_size_array:
  assumes "ds \<noteq> []" and "list_all is_digit ds"
    and "map_of types (base @ ''['' @ ds @ '']'') = None"
    and "map_of types (base @ ''['' @ butlast ds) = None"
    and "\<forall>u \<in> set (vs @ [v]). u \<noteq> PyNone"
  shows "encode_field P types name (base @ ''['' @ ds @ '']'') (PyList (vs @ [v])) =
     (case abi_encode P [base @ ''['' @ butlast ds] [v] of
        Inl e \<Rightarrow> Inl e
      | Inr enc \<Rightarrow> Inr (''bytes32'', PyBytes (keccak256 P enc)))"
proof -
  let ?ty = "base @ ''['' @ ds @ '']''"
  let ?parsed = "base @ ''['' @ butlast ds"
  have parsed: "butlast (butlast ?ty) = ?parsed"
    using assms(1) by (simp add: butlast_append)
  have nin: "CHR ''['' \<notin> set ''bytes''" "CHR ''['' \<notin> set ''string''" by simp_all
  have "CHR ''['' \<in> set ?ty" by simp
  with nin have nb: "?ty \<noteq> ''bytes''" "?ty \<noteq> ''string''" by metis+
  have "CHR ''['' \<in> set ?parsed" by simp
  with nin have pnb: "?parsed \<noteq> ''bytes''" "?parsed \<noteq> ''string''" by metis+
  have plast: "?parsed = [] \<or> last ?parsed \<noteq> CHR '']''"
  proof (cases "butlast ds = []")
    case True
    then show ?thesis by simp
  next
    case False
    then have "last ?parsed = last (butlast ds)" by simp
    moreover have "last (butlast ds) \<in> set ds"
      using False by (meson in_set_butlastD last_in_set)
    then have "is_digit (last (butlast ds))" using assms(2) by (simp add: list_all_iff)
    then have "last (butlast ds) \<noteq> CHR '']''" by (auto simp: is_digit_def)
    ultimately show ?thesis by simp
  qed
  have elems: "\<forall>u \<in> set (vs @ [v]). encode_field P types name ?parsed u = Inr (?parsed, u)"
    using assms(5) encode_field_passthrough[OF assms(4) pnb plast] by blast
  have seq: "sequence_err (map (encode_field P types name ?parsed) (vs @ [v])) =
      Inr (map (\<lambda>u. (?parsed, u)) (vs @ [v]))"
    using elems by (rule sequence_err_passthrough)
  have "py_dict (map (\<lambda>u. (?parsed, u)) (vs @ [v])) = [(?parsed, v)]"
    using py_dict_same_key[of "map (\<lambda>u. (?parsed, u)) (vs @ [v])" ?parsed] by simp
  then show ?thesis
    using encode_field_array[OF assms(3) nb, of P name "vs @ [v]"] seq parsed
    by simp
qed

theorem encode_field_fixed_size_array_witness:
  "''3'' \<noteq> [] \<and> list_all is_digit ''3'' \<and>
   map_of example_types (''Message'' @ ''['' @ ''3'' @ '']'') = None \<and>
   map_of example_types (''Message'' @ ''['' @ butlast ''3'') = None \<and>
   message_1 \<noteq> PyNone \<and> message_2 \<noteq> PyNone \<and>
   encode_field toy_prims example_types ''messages'' ''Message[3]''
       (PyList [message_1, message_2, message_1]) =
     Inr (''bytes32'', PyBytes (keccak256 toy_prims (encode_utf8 ''Message['')))"
proof -
  have a: "''3'' \<noteq> []" "list_all is_digit ''3''"
    by (simp_all add: is_digit_def)
  have b: "map_of example_types (''Message'' @ ''['' @ ''3'' @ '']'') = None"
    "map_of example_types (''Message'' @ ''['' @ butlast ''3'') = None"
    by (simp_all add: example_types_def)
  have c: "\<forall>u \<in> set ([message_1, message_2] @ [message_1]). u \<noteq> PyNone"
    by (simp add: message_1_def message_2_def)
  from encode_field_fixed_size_array[OF a b c, of toy_prims "''messages''"]
  show ?thesis
    using a b c by simp
qed

text \<open>
  C7, as amended. Called with an empty result, \<open>find_type_dependencies\<close> returns a
  duplicate-free list whose elements are exactly the names that have a non-empty field
  list and are reached from the stripped starting name, in the order in which the
  depth-first worklist traversal first visits them. The starting name is cut at its first
  non-word character before it is looked up. A name that is already in the result, or
  that has no non-empty field list in the TypeSet (no entry, or an empty one), is not
  added and nothing is visited for it; any other name is appended to the result before
  whatever its fields lead to. When the stripped starting name has a non-empty field
  list, it is the first element of the result.
\<close>

theorem find_type_dependencies_dfs_order:
  "distinct (find_type_dependencies pt types []) \<and>
   set (find_type_dependencies pt types []) = {q. depends_on types (re_split_first pt) q} \<and>
   find_type_dependencies pt types [] = dfs_worklist types [pt] [] \<and>
   (\<exists>rest. pt = re_split_first pt @ rest \<and> list_all is_word_char (re_split_first pt) \<and>
      (rest = [] \<or> \<not> is_word_char (hd rest))) \<and>
   find_type_dependencies pt types rs = find_type_dependencies (re_split_first pt) types rs \<and>
   (re_split_first pt \<in> set rs \<or> \<not> truthy (map_of types (re_split_first pt)) \<longrightarrow>
      find_type_dependencies pt types rs = rs) \<and>
   (re_split_first pt \<notin> set rs \<and> truthy (map_of types (re_split_first pt)) \<longrightarrow>
      (\<exists>new. find_type_dependencies pt types rs = rs @ re_split_first pt # new)) \<and>
   (truthy (map_of types (re_split_first pt)) \<longrightarrow>
      (\<exists>rest. find_type_dependencies pt types [] = re_split_first pt # rest))"
proof (intro conjI)
  show "distinct (find_type_dependencies pt types [])"
    by (simp add: find_deps_distinct(1))
  show "set (find_type_dependencies pt types []) = {q. depends_on types (re_split_first pt) q}"
    by (rule find_type_dependencies_set)
  show "find_type_dependencies pt types [] = dfs_worklist types [pt] []"
    by (rule find_type_dependencies_worklist)
  show "\<exists>rest. pt = re_split_first pt @ rest \<and> list_all is_word_char (re_split_first pt) \<and>
      (rest = [] \<or> \<not> is_word_char (hd rest))"
    by (rule re_split_first_decomp)
  show "find_type_dependencies pt types rs = find_type_dependencies (re_split_first pt) types rs"
    by (rule find_type_dependencies_stripped)
  show "re_split_first pt \<in> set rs \<or> \<not> truthy (map_of types (re_split_first pt)) \<longrightarrow>
      find_type_dependencies pt types rs = rs"
    by (simp add: find_type_dependencies_skip)
  show "re_split_first pt \<notin> set rs \<and> truthy (map_of types (re_split_first pt)) \<longrightarrow>
      (\<exists>new. find_type_dependencies pt types rs = rs @ re_split_first pt # new)"
    by (simp add: find_type_dependencies_appends)
  show "truthy (map_of types (re_split_first pt)) \<longrightarrow>
      (\<exists>rest. find_type_dependencies pt types [] = re_split_first pt # rest)"
    by (simp add: find_type_dependencies_first)
qed

lemma example_types_Mailbox_deps:
  "find_type_dependencies ''Mailbox[]'' example_types [] = [''Mailbox'', ''Message'']"
  by (simp add: find_type_dependencies.simps example_types_def re_split_first_def
      is_word_char_def truthy_def)

theorem find_type_dependencies_dfs_order_witness:
  "re_split_first ''Mailbox[]'' = ''Mailbox'' \<and>
   truthy (map_of example_types ''Mailbox'') \<and>
   find_type_dependencies ''Mailbox[]'' example_types [] = [''Mailbox'', ''Message''] \<and>
   find_type_dependencies ''Mailbox[]'' example_types [''Mailbox''] = [''Mailbox''] \<and>
   {q. depends_on example_types ''Mailbox'' q} = {''Mailbox'', ''Message''}"
proof -
  have strip: "re_split_first ''Mailbox[]'' = ''Mailbox''"
    by (simp add: re_split_first_def is_word_char_def)
  have comp: "truthy (map_of example_types ''Mailbox'')"
    by (simp add: example_types_def truthy_def)
  note dfs = find_type_dependencies_dfs_order[of "''Mailbox[]''" example_types "[''Mailbox'']"]
  from dfs have "set (find_type_dependencies ''Mailbox[]'' example_types []) =
      {q. depends_on example_types (re_split_first ''Mailbox[]'') q}"
    by blast
  then have reach: "{q. depends_on example_types ''Mailbox'' q} = {''Mailbox'', ''Message''}"
    by (simp add: strip example_types_Mailbox_deps)
  from dfs have "re_split_first ''Mailbox[]'' \<in> set [''Mailbox''] \<or>
      \<not> truthy (map_of example_types (re_split_first ''Mailbox[]'')) \<longrightarrow>
      find_type_dependencies ''Mailbox[]'' example_types [''Mailbox''] = [''Mailbox'']"
    by blast
  then have skip: "find_type_dependencies ''Mailbox[]'' example_types [''Mailbox''] = [''Mailbox'']"
    by (simp add: strip)
  show ?thesis
    using strip comp example_types_Mailbox_deps skip reach by simp
qed

text \<open>
  C7 as stated fails where the stripped starting name is a key of the TypeSet with an
  empty field list: the name is a key, and the result is empty.
\<close>

theorem find_type_dependencies_empty_entry_counterexample:
  "re_split_first ''A'' = ''A'' \<and> map_of [(''A'', [])] ''A'' = Some [] \<and>
   find_type_dependencies ''A'' [(''A'', [])] [] = []"
  by (simp add: find_type_dependencies.simps re_split_first_def is_word_char_def truthy_def)

text \<open>
  C8, as amended. \<open>encode_type\<close> fails exactly when the primary type itself has no
  non-empty field list in the TypeSet. Every name the dependency resolution returns has a
  non-empty field list, so a field type that names a type without an entry is no
  dependency and causes no failure.
\<close>

theorem encode_type_fails_iff:
  "((\<exists>e. encode_type primary_type types = Inl e) \<longleftrightarrow> \<not> truthy (map_of types primary_type)) \<and>
   (\<forall>d \<in> set (find_type_dependencies primary_type types []). truthy (map_of types d)) \<and>
   (\<forall>children f. map_of types primary_type = Some children \<longrightarrow> f \<in> set children \<longrightarrow>
      \<not> truthy (map_of types (re_split_first (ftype f))) \<longrightarrow>
      (\<exists>s. encode_type primary_type types = Inr s) \<and>
      re_split_first (ftype f) \<notin> set (find_type_dependencies primary_type types []))"
proof (intro conjI allI impI)
  show "(\<exists>e. encode_type primary_type types = Inl e) \<longleftrightarrow> \<not> truthy (map_of types primary_type)"
    using encode_type_composite[of types primary_type]
      encode_type_not_composite[of types primary_type]
    by auto
  show "\<forall>d \<in> set (find_type_dependencies primary_type types []). truthy (map_of types d)"
    using find_type_dependencies_composite by blast
next
  fix children f
  assume "map_of types primary_type = Some children" and "f \<in> set children"
  then have "truthy (map_of types primary_type)"
    by (auto simp: truthy_def)
  then show "\<exists>s. encode_type primary_type types = Inr s"
    using encode_type_composite by blast
next
  fix children f
  assume "\<not> truthy (map_of types (re_split_first (ftype f)))"
  then show "re_split_first (ftype f) \<notin> set (find_type_dependencies primary_type types [])"
    using find_type_dependencies_composite by blast
qed

theorem encode_type_fails_iff_witness:
  "\<not> truthy (map_of mail_types ''Label'') \<and> (\<exists>e. encode_type ''Label'' mail_types = Inl e) \<and>
   truthy (map_of mail_types ''Mail'') \<and> \<not> (\<exists>e. encode_type ''Mail'' mail_types = Inl e) \<and>
   (\<exists>children. map_of mail_types ''Mail'' = Some children \<and>
      \<lparr>fname = ''label'', ftype = ''Label''\<rparr> \<in> set children) \<and>
   ''Label'' \<notin> set (find_type_dependencies ''Mail'' mail_types [])"
proof -
  have a: "\<not> truthy (map_of mail_types ''Label'')"
    by (simp add: mail_types_def truthy_def)
  have b: "truthy (map_of mail_types ''Mail'')"
    by (simp add: mail_types_def truthy_def)
  have c: "\<exists>children. map_of mail_types ''Mail'' = Some children \<and>
      \<lparr>fname = ''label'', ftype = ''Label''\<rparr> \<in> set children"
    by (simp add: mail_types_def)
  have d: "re_split_first (ftype \<lparr>fname = ''label'', ftype = ''Label''\<rparr>) = ''Label''"
    by (simp add: re_split_first_def is_word_char_def)
  have "''Label'' \<notin> set (find_type_dependencies ''Mail'' mail_types [])"
    using encode_type_fails_iff[of "''Mail''" mail_types] a c d by metis
  then show ?thesis
    using encode_type_fails_iff[of "''Label''" mail_types]
      encode_type_fails_iff[of "''Mail''" mail_types] a b c
    by blast
qed

text \<open>
  C8 as stated fails: the field \<open>label\<close> of \<open>Mail\<close> names the type \<open>Label\<close>, which has
  no entry in the TypeSet, and \<open>encode_type\<close> returns a canonical string.
\<close>

theorem encode_type_undefined_reference_counterexample:
  "\<lparr>fname = ''label'', ftype = ''Label''\<rparr> \<in> set (the (map_of mail_types ''Mail'')) \<and>
   map_of mail_types ''Label'' = None \<and>
   encode_type ''Mail'' mail_types =
     Inr ''Mail(Person from,Attachment[] files,Label label)Attachment(Person owner)Person(string name)''"
  by (simp add: encode_type_def find_type_dependencies.simps mail_types_def
      re_split_first_def is_word_char_def truthy_def)

text \<open>
  C9. When the key is accepted and the signer returns the 65 bytes \<open>r\<close>, \<open>s\<close>, \<open>v\<close> with
  \<open>r\<close> and \<open>s\<close> of 32 bytes and \<open>v\<close> 0 or 1, \<open>eip712_signature\<close> returns \<open>0x\<close> followed
  by the hexadecimal text of \<open>r\<close>, \<open>s\<close> and the one byte \<open>v + 27\<close>: 132 characters,
  which read back as those 65 bytes, the last of them 27 or 28. A payload given as a list
  of segments is signed as their concatenation.
\<close>

theorem eip712_signature_layout:
  assumes "from_hex S (normalise_key private_key) = Inr pk"
    and "sign_recoverable S pk (join_payload payload) (keccak256 P) = Inr (r @ s @ [v])"
    and "length r = 32" and "length s = 32" and "v = 0 \<or> v = 1"
  shows "eip712_signature P S payload private_key = Inr (''0x'' @ bytes_hex (r @ s @ [v + 27])) \<and>
         length (''0x'' @ bytes_hex (r @ s @ [v + 27])) = 132 \<and>
         bytes_fromhex (bytes_hex (r @ s @ [v + 27])) = Inr (r @ s @ [v + 27]) \<and>
         (v + 27 = 27 \<or> v + 27 = 28) \<and>
         eip712_signature P S (Segments segs) private_key =
           eip712_signature P S (Payload (concat segs)) private_key"
proof -
  have idx: "(r @ s @ [v]) ! 64 = v"
    using assms(3,4) by (simp add: nth_append)
  have tr: "take 32 (r @ s @ [v]) = r" "take 32 (drop 32 (r @ s @ [v])) = s"
    using assms(3,4) by simp_all
  have rb: "int_to_bytes (big_endian_to_int r) 32 = Inr r"
    using assms(3) by (rule int_to_bytes_roundtrip)
  have sb: "int_to_bytes (big_endian_to_int s) 32 = Inr s"
    using assms(4) by (rule int_to_bytes_roundtrip)
  have vb: "int_to_bytes (uint v + 27) (Suc 0) = Inr [v + 27]"
    using int_to_bytes_recovery_id[OF assms(5)] by simp
  have "eip712_signature P S payload private_key = Inr (''0x'' @ bytes_hex (r @ s @ [v + 27]))"
    using assms(3,4)
    by (simp add: eip712_signature_def Let_def assms(1,2) idx tr rb sb vb)
  moreover have "length (''0x'' @ bytes_hex (r @ s @ [v + 27])) = 132"
    using assms(3,4) by (simp add: length_bytes_hex)
  moreover have "v + 27 = 27 \<or> v + 27 = 28"
    using assms(5) by auto
  moreover have "eip712_signature P S (Segments segs) private_key =
           eip712_signature P S (Payload (concat segs)) private_key"
    by (simp add: eip712_signature_def join_payload_def)
  ultimately show ?thesis
    by (simp add: bytes_fromhex_hex)
qed

theorem eip712_signature_layout_witness:
  "from_hex toy_signer (normalise_key example_key) = Inr example_key_bytes \<and>
   sign_recoverable toy_signer example_key_bytes
       (join_payload (Segments [[0x19, 0x01], [0xAB, 0xCD]])) (keccak256 toy_prims) =
     Inr (example_digest @ example_key_bytes @ [1]) \<and>
   length example_digest = 32 \<and> length example_key_bytes = 32 \<and>
   eip712_signature toy_prims toy_signer (Segments [[0x19, 0x01], [0xAB, 0xCD]]) example_key =
     Inr ''0x1901abcd000000000000000000000000000000000000000000000000000000008da4ef21b864d2cc526dbdb2a120bd2874c36c9d0a1fb7f8c63d7f7a8b41de8f1c'' \<and>
   length ''0x1901abcd000000000000000000000000000000000000000000000000000000008da4ef21b864d2cc526dbdb2a120bd2874c36c9d0a1fb7f8c63d7f7a8b41de8f1c'' = 132"
proof -
  have key: "from_hex toy_signer (normalise_key example_key) = Inr example_key_bytes"
    by (simp add: toy_signer_def normalise_key_def example_key_def example_key_bytes_def
        hex_value_def is_space_def)
  have sig: "sign_recoverable toy_signer example_key_bytes
      (join_payload (Segments [[0x19, 0x01], [0xAB, 0xCD]])) (keccak256 toy_prims) =
      Inr (example_digest @ example_key_bytes @ [1])"
    by (simp add: toy_signer_def join_payload_def example_digest_def eval_nat_numeral)
  have len: "length example_digest = 32" "length example_key_bytes = 32"
    by (simp_all add: example_digest_def example_key_bytes_def)
  have one: "(1 :: byte) = 0 \<or> (1 :: byte) = 1"
    by simp
  from eip712_signature_layout[OF key sig len one, of "[]"]
  have "eip712_signature toy_prims toy_signer (Segments [[0x19, 0x01], [0xAB, 0xCD]]) example_key =
      Inr (''0x'' @ bytes_hex (example_digest @ example_key_bytes @ [1 + 27]))"
    by blast
  moreover have "''0x'' @ bytes_hex (example_digest @ example_key_bytes @ [1 + 27]) = ''0x1901abcd000000000000000000000000000000000000000000000000000000008da4ef21b864d2cc526dbdb2a120bd2874c36c9d0a1fb7f8c63d7f7a8b41de8f1c''"
    by (simp add: bytes_hex_def hex_of_byte_def hex_digit_def example_digest_def
        example_key_bytes_def)
  ultimately show ?thesis
    using key sig len by simp
qed

text \<open>
  C10. When the Record is a dict that has no key for a field \<open>f\<close> of the primary type,
  reading that field raises \<open>KeyError\<close>, whatever the declared type of \<open>f\<close>, composite or
  not; so \<open>encode_data\<close> fails, and it fails with this \<open>KeyError\<close> when the fields before
  \<open>f\<close> encode. The all-zero substitute is never reached for an absent key.
\<close>

theorem encode_data_absent_key:
  assumes "map_of types primary_type = Some (pre @ f # post)"
    and "map_of kvs (fname f) = None"
  shows "encode_entry P types (PyDict kvs) f = Inl (KeyError (fname f)) \<and>
     (\<exists>e. encode_data P primary_type (PyDict kvs) types = Inl e) \<and>
     ((\<exists>tvs. sequence_err (map (encode_entry P types (PyDict kvs)) pre) = Inr tvs) \<longrightarrow>
        encode_data P primary_type (PyDict kvs) types = Inl (KeyError (fname f)))"
proof -
  have entry: "encode_entry P types (PyDict kvs) f = Inl (KeyError (fname f))"
    using assms(2) by (rule encode_entry_absent_key)
  obtain h where enc: "encode_data P primary_type (PyDict kvs) types =
       (case sequence_err (map (encode_entry P types (PyDict kvs)) (pre @ f # post)) of
          Inl e \<Rightarrow> Inl e
        | Inr tvs \<Rightarrow> abi_encode P (''bytes32'' # map fst tvs) (PyBytes h # map snd tvs))"
    using encode_data_composite[OF assms(1), of P "PyDict kvs"] by auto
  have "Inl (KeyError (fname f)) \<in> set (map (encode_entry P types (PyDict kvs)) (pre @ f # post))"
    using entry by (simp add: image_iff)
  then obtain e' where "sequence_err (map (encode_entry P types (PyDict kvs)) (pre @ f # post)) = Inl e'"
    using sequence_err_has_Inl by blast
  then have fails: "\<exists>e. encode_data P primary_type (PyDict kvs) types = Inl e"
    by (simp add: enc)
  have first: "encode_data P primary_type (PyDict kvs) types = Inl (KeyError (fname f))"
    if "\<exists>tvs. sequence_err (map (encode_entry P types (PyDict kvs)) pre) = Inr tvs"
    using that by (auto simp: enc sequence_err_append entry)
  show ?thesis using entry fails first by blast
qed

theorem encode_data_absent_key_witness:
  "map_of person_types ''Mail'' =
     Some ([\<lparr>fname = ''from'', ftype = ''Person''\<rparr>] @ \<lparr>fname = ''to'', ftype = ''Person''\<rparr> #
           [\<lparr>fname = ''contents'', ftype = ''string''\<rparr>]) \<and>
   map_of person_types ''Person'' \<noteq> None \<and>
   map_of [(''from'', PyNone), (''contents'', PyStr ''Hello, Bob!'')] ''to'' = None \<and>
   sequence_err (map (encode_entry toy_prims person_types
       (PyDict [(''from'', PyNone), (''contents'', PyStr ''Hello, Bob!'')]))
     [\<lparr>fname = ''from'', ftype = ''Person''\<rparr>]) = Inr [(''bytes32'', PyStr zero_bytes32_hex)] \<and>
   encode_entry toy_prims person_types
       (PyDict [(''from'', PyNone), (''contents'', PyStr ''Hello, Bob!'')])
       \<lparr>fname = ''to'', ftype = ''Person''\<rparr> = Inl (KeyError ''to'') \<and>
   encode_data toy_prims ''Mail''
       (PyDict [(''from'', PyNone), (''contents'', PyStr ''Hello, Bob!'')]) person_types =
     Inl (KeyError ''to'')"
proof -
  let ?data = "[(''from'', PyNone), (''contents'', PyStr ''Hello, Bob!'')]"
  let ?to = "\<lparr>fname = ''to'', ftype = ''Person''\<rparr>"
  have ch: "map_of person_types ''Mail'' =
     Some ([\<lparr>fname = ''from'', ftype = ''Person''\<rparr>] @ ?to #
           [\<lparr>fname = ''contents'', ftype = ''string''\<rparr>])"
    by (simp add: person_types_def)
  have comp: "map_of person_types ''Person'' \<noteq> None"
    by (simp add: person_types_def)
  have absent: "map_of ?data (fname ?to) = None"
    by simp
  have pre: "sequence_err (map (encode_entry toy_prims person_types (PyDict ?data))
      [\<lparr>fname = ''from'', ftype = ''Person''\<rparr>]) = Inr [(''bytes32'', PyStr zero_bytes32_hex)]"
    by (simp add: encode_entry_null_composite comp)
  from encode_data_absent_key[OF ch absent, of toy_prims]
  show ?thesis using ch comp pre by simp
qed

end
